theory Spec2Isabelle
  imports Complex_Main "HOL-Library.Sublist" "HOL-Library.AList"
begin

section \<open>HiveTracks-BEEP-Sync: the import ledger\<close>

text \<open>
  The ledger is the SQLite table \<^verbatim>\<open>imported_records\<close> that \<^verbatim>\<open>init_db\<close> creates:
  \<^verbatim>\<open>record_id TEXT PRIMARY KEY, action_date TEXT, checklist_id TEXT, created_at TEXT\<close>.
  A table is the list of its rows in insertion order. The column \<^verbatim>\<open>created_at\<close> is
  filled by the store's own clock and is read nowhere in the program; it is left out of
  the row.
\<close>

record ledger_row =
  record_id :: string
  action_date :: string
  checklist_id :: string

type_synonym ledger = "ledger_row list"

text \<open>
  \<^verbatim>\<open>CREATE TABLE IF NOT EXISTS\<close>: a store without the table gets an empty one, an
  existing table keeps its rows.
\<close>

definition init_db :: "ledger option \<Rightarrow> ledger" where
  "init_db store = (case store of None \<Rightarrow> [] | Some rows \<Rightarrow> rows)"

text \<open>\<^verbatim>\<open>SELECT record_id FROM imported_records\<close>, collected into a set.\<close>

definition get_imported_ids :: "ledger \<Rightarrow> string set" where
  "get_imported_ids conn = set (map record_id conn)"

text \<open>
  \<^verbatim>\<open>INSERT OR IGNORE\<close>: the row is appended unless a row with the same primary key is
  in the table, in which case the statement changes nothing.
\<close>

definition mark_imported :: "ledger \<Rightarrow> string \<Rightarrow> string \<Rightarrow> string \<Rightarrow> ledger" where
  "mark_imported conn rid adate cid =
     (if rid \<in> set (map record_id conn) then conn
      else conn @ [\<lparr>record_id = rid, action_date = adate, checklist_id = cid\<rparr>])"

text \<open>The primary-key constraint, as a property of a table.\<close>

definition primary_key_ok :: "ledger \<Rightarrow> bool" where
  "primary_key_ok conn = distinct (map record_id conn)"

text \<open>The rows stored under one record id.\<close>

definition entries_for :: "ledger \<Rightarrow> string \<Rightarrow> ledger_row list" where
  "entries_for conn rid = filter (\<lambda>row. record_id row = rid) conn"

section \<open>JSON values and the Python operations on them\<close>

text \<open>
  Source records and the destination's reference data are parsed JSON: \<^verbatim>\<open>None\<close>,
  booleans, integers, strings, lists and dictionaries with string keys. A dictionary is
  the list of its items in insertion order. A string is the list of its characters;
  characters have eight bits here, so text outside Latin-1 is outside the model, and so
  are JSON numbers with a fraction (Python floats).
\<close>

datatype jv =
    JNull
  | JBool bool
  | JInt int
  | JStr string
  | JList "jv list"
  | JObj "(string \<times> jv) list"

type_synonym json_obj = "(string \<times> jv) list"

text \<open>The exception classes the program can raise, without their messages.\<close>

datatype py_error =
    KeyError
  | TypeError
  | ValueError
  | AttributeError
  | FileNotFoundError
  | JSONDecodeError
  | RuntimeError
  | RequestException

text \<open>Python's truth value of an object.\<close>

fun truthy :: "jv \<Rightarrow> bool" where
  "truthy JNull = False"
| "truthy (JBool b) = b"
| "truthy (JInt i) = (i \<noteq> 0)"
| "truthy (JStr s) = (s \<noteq> [])"
| "truthy (JList vs) = (vs \<noteq> [])"
| "truthy (JObj kvs) = (kvs \<noteq> [])"

text \<open>\<^verbatim>\<open>d.get(k)\<close> and \<^verbatim>\<open>d.get(k, default)\<close> on a dictionary with string keys.\<close>

definition dict_get_default :: "json_obj \<Rightarrow> string \<Rightarrow> jv \<Rightarrow> jv" where
  "dict_get_default d k dflt = (case map_of d k of None \<Rightarrow> dflt | Some v \<Rightarrow> v)"

definition dict_get :: "json_obj \<Rightarrow> string \<Rightarrow> jv" where
  "dict_get d k = dict_get_default d k JNull"

text \<open>\<^verbatim>\<open>d[k] = v\<close>: an existing key keeps its place, a new key goes last.\<close>

definition dict_set :: "string \<Rightarrow> jv \<Rightarrow> json_obj \<Rightarrow> json_obj" where
  "dict_set k v d = AList.update k v d"

text \<open>\<^verbatim>\<open>d.update(e)\<close>: the items of \<open>e\<close> are stored one by one, in order.\<close>

definition dict_update :: "json_obj \<Rightarrow> json_obj \<Rightarrow> json_obj" where
  "dict_update d e = fold (\<lambda>(k, v). dict_set k v) e d"

text \<open>
  \<^verbatim>\<open>h.get(k)\<close> and \<^verbatim>\<open>h[k]\<close> on an arbitrary object: only a dictionary has
  \<^verbatim>\<open>get\<close> (AttributeError otherwise); a string key subscripts only a dictionary
  (TypeError otherwise), and a missing key is a KeyError.
\<close>

fun py_get :: "jv \<Rightarrow> string \<Rightarrow> py_error + jv" where
  "py_get (JObj kvs) k = Inr (dict_get kvs k)"
| "py_get v k = Inl AttributeError"

fun py_getitem :: "jv \<Rightarrow> string \<Rightarrow> py_error + jv" where
  "py_getitem (JObj kvs) k = (case map_of kvs k of None \<Rightarrow> Inl KeyError | Some v \<Rightarrow> Inr v)"
| "py_getitem v k = Inl TypeError"

text \<open>
  Iterating an object: the elements of a list, the characters of a string, the keys of a
  dictionary; anything else is not iterable.
\<close>

fun py_iter :: "jv \<Rightarrow> py_error + jv list" where
  "py_iter (JList vs) = Inr vs"
| "py_iter (JStr s) = Inr (map (\<lambda>c. JStr [c]) s)"
| "py_iter (JObj kvs) = Inr (map (\<lambda>kv. JStr (fst kv)) kvs)"
| "py_iter v = Inl TypeError"

text \<open>
  Dictionary keys: lists and dictionaries are unhashable; \<^verbatim>\<open>True\<close> and \<^verbatim>\<open>1\<close>
  (\<^verbatim>\<open>False\<close> and \<^verbatim>\<open>0\<close>) are the same key. A key is stored in its normal form.
\<close>

fun py_key :: "jv \<Rightarrow> py_error + jv" where
  "py_key (JList vs) = Inl TypeError"
| "py_key (JObj kvs) = Inl TypeError"
| "py_key (JBool b) = Inr (JInt (if b then 1 else 0))"
| "py_key v = Inr v"

text \<open>\<^verbatim>\<open>x in v\<close> for a string \<open>x\<close>: substring, list element, or dictionary key.\<close>

fun contains_str :: "string \<Rightarrow> jv \<Rightarrow> py_error + bool" where
  "contains_str x (JStr s) = Inr (sublist x s)"
| "contains_str x (JList vs) = Inr (JStr x \<in> set vs)"
| "contains_str x (JObj kvs) = Inr (x \<in> set (map fst kvs))"
| "contains_str x v = Inl TypeError"

text \<open>
  \<^verbatim>\<open>v in d\<close> followed by \<^verbatim>\<open>d[v]\<close> for a dictionary \<open>d\<close> with string keys: the
  entry, if \<open>v\<close> is one of the keys. Only a string equals a string key; the hash of
  \<open>v\<close> is taken first, so a list or a dictionary raises.
\<close>

fun str_dict_find :: "jv \<Rightarrow> (string \<times> 'a) list \<Rightarrow> py_error + 'a option" where
  "str_dict_find (JStr s) d = Inr (map_of d s)"
| "str_dict_find (JList vs) d = Inl TypeError"
| "str_dict_find (JObj kvs) d = Inl TypeError"
| "str_dict_find v d = Inr None"

subsection \<open>\<^verbatim>\<open>str()\<close>\<close>

definition digit_char :: "nat \<Rightarrow> char" where
  "digit_char n = ''0123456789abcdef'' ! n"

function dec_digits :: "nat \<Rightarrow> string" where
  "dec_digits n =
     (if n < 10 then [digit_char n] else dec_digits (n div 10) @ [digit_char (n mod 10)])"
  by pat_completeness auto
termination
  by (relation "measure id") auto

definition str_int :: "int \<Rightarrow> string" where
  "str_int i = (if i < 0 then CHR ''-'' # dec_digits (nat (- i)) else dec_digits (nat i))"

fun join_sep :: "string \<Rightarrow> string list \<Rightarrow> string" where
  "join_sep sep [] = []"
| "join_sep sep [x] = x"
| "join_sep sep (x # y # ys) = x @ sep @ join_sep sep (y # ys)"

text \<open>
  \<^verbatim>\<open>repr\<close> of a string: single quotes, unless the string has a single quote and no
  double quote; the quote and the backslash are escaped, tab, newline and carriage
  return are written \<^verbatim>\<open>\t \n \r\<close>, every other non-printable character as
  \<^verbatim>\<open>\xhh\<close>.
\<close>

definition printable :: "char \<Rightarrow> bool" where
  "printable c =
     (let n = (of_char c :: nat)
      in 32 \<le> n \<and> n \<noteq> 127 \<and> \<not> (128 \<le> n \<and> n \<le> 160) \<and> n \<noteq> 173)"

definition repr_char :: "char \<Rightarrow> char \<Rightarrow> string" where
  "repr_char q c =
     (if c = q \<or> c = CHR 0x5C then [CHR 0x5C, c]
      else if c = CHR 0x09 then [CHR 0x5C, CHR ''t'']
      else if c = CHR 0x0A then [CHR 0x5C, CHR ''n'']
      else if c = CHR 0x0D then [CHR 0x5C, CHR ''r'']
      else if printable c then [c]
      else [CHR 0x5C, CHR ''x'', digit_char (of_char c div 16), digit_char (of_char c mod 16)])"

definition repr_str :: "string \<Rightarrow> string" where
  "repr_str s =
     (let q = (if CHR 0x27 \<in> set s \<and> CHR 0x22 \<notin> set s then CHR 0x22 else CHR 0x27)
      in q # concat (map (repr_char q) s) @ [q])"

fun py_repr :: "jv \<Rightarrow> string" where
  "py_repr JNull = ''None''"
| "py_repr (JBool b) = (if b then ''True'' else ''False'')"
| "py_repr (JInt i) = str_int i"
| "py_repr (JStr s) = repr_str s"
| "py_repr (JList vs) = ''['' @ join_sep '', '' (map py_repr vs) @ '']''"
| "py_repr (JObj kvs) =
     ''{'' @ join_sep '', '' (map (\<lambda>(k, v). repr_str k @ '': '' @ py_repr v) kvs) @ ''}''"

fun py_str :: "jv \<Rightarrow> string" where
  "py_str (JStr s) = s"
| "py_str v = py_repr v"

section \<open>The record normalizer\<close>

text \<open>
  \<^verbatim>\<open>datetime.strptime(r["actionDate"], "%Y-%m-%dT%H:%M:%S.%fZ")\<close> followed by
  \<^verbatim>\<open>strftime("%Y-%m-%dT%H:%M:%SZ")\<close>. The library compiles the format into a regular
  expression, one group per directive, matched ignoring case:
  \<^verbatim>\<open>%Y\<close> is \<^verbatim>\<open>\d\d\d\d\<close>, \<^verbatim>\<open>%m\<close> is \<^verbatim>\<open>1[0-2]|0[1-9]|[1-9]\<close>,
  \<^verbatim>\<open>%d\<close> is \<^verbatim>\<open>3[0-1]|[1-2]\d|0[1-9]|[1-9]| [1-9]\<close>, \<^verbatim>\<open>%H\<close> is \<^verbatim>\<open>2[0-3]|[0-1]\d|\d\<close>,
  \<^verbatim>\<open>%M\<close> is \<^verbatim>\<open>[0-5]\d|\d\<close>, \<^verbatim>\<open>%S\<close> is \<^verbatim>\<open>6[0-1]|[0-5]\d|\d\<close> and
  \<^verbatim>\<open>%f\<close> is \<^verbatim>\<open>[0-9]{1,6}\<close>. In this format every directive is followed by a
  character that is no digit, so a group matches a whole run of digits or nothing: a
  directive is a test on the run of digits at the head of the text.
\<close>

definition is_digit :: "char \<Rightarrow> bool" where
  "is_digit c = (c \<in> set ''0123456789'')"

definition digit_val :: "char \<Rightarrow> nat" where
  "digit_val c = of_char c - 48"

definition num :: "string \<Rightarrow> nat" where
  "num ds = foldl (\<lambda>a c. 10 * a + digit_val c) 0 ds"

definition digits_field :: "(string \<Rightarrow> bool) \<Rightarrow> string \<Rightarrow> (nat \<times> string) option" where
  "digits_field ok s =
     (let ds = takeWhile is_digit s
      in if ok ds then Some (num ds, dropWhile is_digit s) else None)"

fun literal :: "string \<Rightarrow> string \<Rightarrow> string option" where
  "literal cs [] = None"
| "literal cs (c # s) = (if c \<in> set cs then Some s else None)"

text \<open>The runs of digits each directive accepts.\<close>

definition re_Y :: "string \<Rightarrow> bool" where
  "re_Y ds = (length ds = 4)"

definition re_m :: "string \<Rightarrow> bool" where
  "re_m ds = ((length ds = 1 \<or> length ds = 2) \<and> 1 \<le> num ds \<and> num ds \<le> 12)"

definition re_d :: "string \<Rightarrow> bool" where
  "re_d ds = ((length ds = 1 \<or> length ds = 2) \<and> 1 \<le> num ds \<and> num ds \<le> 31)"

definition re_H :: "string \<Rightarrow> bool" where
  "re_H ds = ((length ds = 1 \<or> length ds = 2) \<and> num ds \<le> 23)"

definition re_M :: "string \<Rightarrow> bool" where
  "re_M ds = ((length ds = 1 \<or> length ds = 2) \<and> num ds \<le> 59)"

definition re_S :: "string \<Rightarrow> bool" where
  "re_S ds = ((length ds = 1 \<or> length ds = 2) \<and> num ds \<le> 61)"

definition re_f :: "string \<Rightarrow> bool" where
  "re_f ds = (1 \<le> length ds \<and> length ds \<le> 6)"

text \<open>One directive of the format matched at the head of the text: its value and the rest.\<close>

definition directive :: "char \<Rightarrow> string \<Rightarrow> (nat \<times> string) option" where
  "directive k s =
     (if k = CHR ''Y'' then digits_field re_Y s
      else if k = CHR ''m'' then digits_field re_m s
      else if k = CHR ''d'' then
        (case s of
           c # d # s' \<Rightarrow>
             if c = CHR '' '' then (if d \<in> set ''123456789'' then Some (digit_val d, s') else None)
             else digits_field re_d s
         | _ \<Rightarrow> digits_field re_d s)
      else if k = CHR ''H'' then digits_field re_H s
      else if k = CHR ''M'' then digits_field re_M s
      else if k = CHR ''S'' then digits_field re_S s
      else if k = CHR ''f'' then digits_field re_f s
      else None)"

text \<open>Letters of the format match in either case.\<close>

definition lower :: "char \<Rightarrow> char" where
  "lower c =
     (let n = (of_char c :: nat) in if 65 \<le> n \<and> n \<le> 90 then char_of (n + 32) else c)"

text \<open>
  The whole text against the format: the values of the directives in order, or nothing
  when the text does not match or text is left over.
\<close>

fun match_format :: "string \<Rightarrow> string \<Rightarrow> nat list option" where
  "match_format [] s = (if s = [] then Some [] else None)"
| "match_format [c] s =
     (case s of [] \<Rightarrow> None | x # s' \<Rightarrow> if lower x = lower c then match_format [] s' else None)"
| "match_format (c # k # fmt) s =
     (if c = CHR ''%'' then
        (case directive k s of
           None \<Rightarrow> None
         | Some (n, s') \<Rightarrow> map_option (Cons n) (match_format fmt s'))
      else
        (case s of [] \<Rightarrow> None | x # s' \<Rightarrow> if lower x = lower c then match_format (k # fmt) s' else None))"

text \<open>
  The \<^verbatim>\<open>datetime\<close> built from the match; the fraction of the second is parsed and
  never printed, so it is not kept. The constructor refuses year 0, a day the month
  does not have and a second above 59.
\<close>

record datetime =
  dt_year :: nat
  dt_month :: nat
  dt_day :: nat
  dt_hour :: nat
  dt_minute :: nat
  dt_second :: nat

definition is_leap :: "nat \<Rightarrow> bool" where
  "is_leap y = (y mod 4 = 0 \<and> (y mod 100 \<noteq> 0 \<or> y mod 400 = 0))"

definition days_in_month :: "nat \<Rightarrow> nat \<Rightarrow> nat" where
  "days_in_month y m =
     (if m = 2 then (if is_leap y then 29 else 28)
      else if m = 4 \<or> m = 6 \<or> m = 9 \<or> m = 11 then 30 else 31)"

definition strptime :: "string \<Rightarrow> string \<Rightarrow> py_error + datetime" where
  "strptime s fmt =
     (case match_format fmt s of
        Some [y, mo, d, h, mi, se, f] \<Rightarrow>
          if y < 1 \<or> days_in_month y mo < d \<or> 59 < se then Inl ValueError
          else Inr \<lparr>dt_year = y, dt_month = mo, dt_day = d, dt_hour = h, dt_minute = mi, dt_second = se\<rparr>
      | _ \<Rightarrow> Inl ValueError)"

text \<open>
  \<^verbatim>\<open>strftime\<close>: month, day, hour, minute and second on two digits. \<^verbatim>\<open>%Y\<close> is the C
  library's: the year in decimal, without padding, so that a year below 1000 has fewer
  than four digits (\<^verbatim>\<open>datetime(999, 1, 2).strftime("%Y")\<close> is \<^verbatim>\<open>999\<close>).
\<close>

definition zero_pad :: "nat \<Rightarrow> nat \<Rightarrow> string" where
  "zero_pad w n = replicate (w - length (dec_digits n)) CHR ''0'' @ dec_digits n"

definition strftime :: "datetime \<Rightarrow> string" where
  "strftime t =
     dec_digits (dt_year t) @ ''-'' @ zero_pad 2 (dt_month t) @ ''-'' @ zero_pad 2 (dt_day t) @ ''T''
     @ zero_pad 2 (dt_hour t) @ '':'' @ zero_pad 2 (dt_minute t) @ '':'' @ zero_pad 2 (dt_second t) @ ''Z''"

text \<open>
  Line 249 on one record: a missing key is a KeyError, a value that is no string a
  TypeError, a string the format does not match a ValueError.
\<close>

fun normalize_date :: "json_obj \<Rightarrow> py_error + string" where
  "normalize_date r =
     (case map_of r ''actionDate'' of
        None \<Rightarrow> Inl KeyError
      | Some (JStr s) \<Rightarrow> (case strptime s ''%Y-%m-%dT%H:%M:%S.%fZ'' of Inl e \<Rightarrow> Inl e | Inr t \<Rightarrow> Inr (strftime t))
      | Some v \<Rightarrow> Inl TypeError)"

section \<open>The mapping ruleset\<close>

text \<open>
  The ruleset is the parsed document \<^verbatim>\<open>mappings.json\<close>. The file is no part of the
  sources; its shape is the one the code reads: item codes, field names, labels and
  match strings are strings, the values a rule sets are arbitrary JSON values, a stage
  flag's item code is any JSON value (the code applies \<^verbatim>\<open>str\<close> to it). Every key of
  the document may be absent.
\<close>

record feeding_rule =
  if_type :: "string option"
  if_other_contains_any :: "string list option"
  if_other_contains :: "string option"
  rule_set :: "json_obj option"

record stages_cfg =
  cfg_field :: "string option"
  cfg_flags :: "(string \<times> jv) list option"

record mappings =
  field_map :: "(string \<times> string) list option"
  enums :: "(string \<times> (string \<times> json_obj) list) list option"
  stages_flags :: "stages_cfg option"
  feeding_rules :: "feeding_rule list option"
  checklist_fallback :: "string option"

text \<open>A file on disk: absent, not parseable as JSON, or holding a document.\<close>

datatype 'a file_content = Missing | Malformed | Parsed 'a

definition load_json_file :: "'a file_content \<Rightarrow> py_error + 'a" where
  "load_json_file f =
     (case f of
        Missing \<Rightarrow> Inl FileNotFoundError
      | Malformed \<Rightarrow> Inl JSONDecodeError
      | Parsed doc \<Rightarrow> Inr doc)"

text \<open>\<^verbatim>\<open>m.setdefault(key, default)\<close> on an optional field.\<close>

definition setdefault :: "'a option \<Rightarrow> 'a \<Rightarrow> 'a option" where
  "setdefault field dflt = (case field of None \<Rightarrow> Some dflt | Some v \<Rightarrow> Some v)"

definition load_mappings :: "mappings file_content \<Rightarrow> py_error + mappings" where
  "load_mappings path =
     (case load_json_file path of
        Inl e \<Rightarrow> Inl e
      | Inr m \<Rightarrow>
          Inr (m\<lparr>field_map := setdefault (field_map m) [],
                 enums := setdefault (enums m) [],
                 stages_flags := setdefault (stages_flags m)
                   \<lparr>cfg_field = Some ''inspectionBroodStages'', cfg_flags = Some []\<rparr>,
                 feeding_rules := setdefault (feeding_rules m) [],
                 checklist_fallback := setdefault (checklist_fallback m) ''TBD''\<rparr>))"

text \<open>\<^verbatim>\<open>mappings.get(key, default)\<close>.\<close>

definition get_or :: "'a option \<Rightarrow> 'a \<Rightarrow> 'a" where
  "get_or field dflt = (case field of None \<Rightarrow> dflt | Some v \<Rightarrow> v)"

section \<open>The transformation engine\<close>

record payload =
  p_date :: string
  p_checklist_id :: jv
  p_reminder :: jv
  p_notes :: jv
  p_hive_ids :: "jv list"
  p_items :: json_obj

subsection \<open>The reference lookup tables\<close>

text \<open>
  \<^verbatim>\<open>{h["name"]: h["id"] for h in hs if h.get("name") and h.get("id")}\<close>, built entry by
  entry into \<open>m\<close>. A later entry of the same name replaces the id.
\<close>

fun name_id_entries :: "jv list \<Rightarrow> (jv \<times> jv) list \<Rightarrow> py_error + (jv \<times> jv) list" where
  "name_id_entries [] m = Inr m"
| "name_id_entries (h # hs) m =
     (case py_get h ''name'' of
        Inl e \<Rightarrow> Inl e
      | Inr name \<Rightarrow>
          if \<not> truthy name then name_id_entries hs m
          else (case py_get h ''id'' of
                  Inl e \<Rightarrow> Inl e
                | Inr hid \<Rightarrow>
                    if \<not> truthy hid then name_id_entries hs m
                    else (case py_key name of
                            Inl e \<Rightarrow> Inl e
                          | Inr k \<Rightarrow> name_id_entries hs (AList.update k hid m))))"

text \<open>The table for \<^verbatim>\<open>ref.get(key, [])\<close>, with \<open>key\<close> \<^verbatim>\<open>"hives"\<close> or \<^verbatim>\<open>"checklists"\<close>.\<close>

definition name_id_map :: "json_obj \<Rightarrow> string \<Rightarrow> py_error + (jv \<times> jv) list" where
  "name_id_map ref key =
     (case py_iter (dict_get_default ref key (JList [])) of
        Inl e \<Rightarrow> Inl e
      | Inr hs \<Rightarrow> name_id_entries hs [])"

text \<open>\<^verbatim>\<open>m.get(x)\<close> and \<^verbatim>\<open>x in m\<close> on such a table: the key is hashed first.\<close>

definition table_get :: "(jv \<times> jv) list \<Rightarrow> jv \<Rightarrow> py_error + jv" where
  "table_get m x =
     (case py_key x of
        Inl e \<Rightarrow> Inl e
      | Inr k \<Rightarrow> Inr (case map_of m k of None \<Rightarrow> JNull | Some v \<Rightarrow> v))"

definition table_has :: "(jv \<times> jv) list \<Rightarrow> jv \<Rightarrow> py_error + bool" where
  "table_has m x =
     (case py_key x of
        Inl e \<Rightarrow> Inl e
      | Inr k \<Rightarrow> Inr (map_of m k \<noteq> None))"

subsection \<open>The four rule tables\<close>

text \<open>1) \<^verbatim>\<open>field_map\<close>: copy a field that is present and not \<^verbatim>\<open>None\<close>.\<close>

fun apply_field_map :: "json_obj \<Rightarrow> (string \<times> string) list \<Rightarrow> json_obj \<Rightarrow> json_obj" where
  "apply_field_map r [] acc = acc"
| "apply_field_map r ((beep_item_id, ht_field) # rest) acc =
     apply_field_map r rest
       (if map_of r ht_field \<noteq> None \<and> dict_get r ht_field \<noteq> JNull
        then dict_set beep_item_id (dict_get r ht_field) acc else acc)"

text \<open>2) \<^verbatim>\<open>enums\<close>: when the field's value is a key of the value map, store its pairs.\<close>

fun apply_enums ::
  "json_obj \<Rightarrow> (string \<times> (string \<times> json_obj) list) list \<Rightarrow> json_obj \<Rightarrow> py_error + json_obj" where
  "apply_enums r [] acc = Inr acc"
| "apply_enums r ((ht_field, value_map) # rest) acc =
     (case str_dict_find (dict_get r ht_field) value_map of
        Inl e \<Rightarrow> Inl e
      | Inr None \<Rightarrow> apply_enums r rest acc
      | Inr (Some pairs) \<Rightarrow> apply_enums r rest (dict_update acc pairs))"

text \<open>3) \<^verbatim>\<open>stages_flags\<close>: a label found in the stages sets its item to \<^verbatim>\<open>True\<close>.\<close>

fun apply_stage_flags :: "jv \<Rightarrow> (string \<times> jv) list \<Rightarrow> json_obj \<Rightarrow> py_error + json_obj" where
  "apply_stage_flags stages [] acc = Inr acc"
| "apply_stage_flags stages ((label, beep_item_id) # rest) acc =
     (case contains_str label stages of
        Inl e \<Rightarrow> Inl e
      | Inr b \<Rightarrow>
          apply_stage_flags stages rest
            (if b then dict_set (py_str beep_item_id) (JBool True) acc else acc))"

text \<open>4) \<^verbatim>\<open>feeding_rules\<close>. \<^verbatim>\<open>any(x in food_other for x in xs)\<close> stops at the first hit.\<close>

fun any_contains :: "string list \<Rightarrow> jv \<Rightarrow> py_error + bool" where
  "any_contains [] v = Inr False"
| "any_contains (x # xs) v =
     (case contains_str x v of
        Inl e \<Rightarrow> Inl e
      | Inr b \<Rightarrow> if b then Inr True else any_contains xs v)"

text \<open>One rule: its three tests in turn, each storing the rule's \<^verbatim>\<open>set\<close> when it holds.\<close>

definition apply_feeding_rule :: "jv \<Rightarrow> jv \<Rightarrow> feeding_rule \<Rightarrow> json_obj \<Rightarrow> py_error + json_obj" where
  "apply_feeding_rule food_type food_other rule acc =
     (let pairs = get_or (rule_set rule) [];
          acc1 = (if (case if_type rule of None \<Rightarrow> False | Some t \<Rightarrow> food_type = JStr t)
                  then dict_update acc pairs else acc)
      in case (case if_other_contains_any rule of
                 None \<Rightarrow> Inr False
               | Some xs \<Rightarrow> any_contains xs food_other) of
           Inl e \<Rightarrow> Inl e
         | Inr b2 \<Rightarrow>
             (let acc2 = (if b2 then dict_update acc1 pairs else acc1)
              in case (case if_other_contains rule of
                         None \<Rightarrow> Inr False
                       | Some x \<Rightarrow> contains_str x food_other) of
                   Inl e \<Rightarrow> Inl e
                 | Inr b3 \<Rightarrow> Inr (if b3 then dict_update acc2 pairs else acc2)))"

fun apply_feeding_rules :: "jv \<Rightarrow> jv \<Rightarrow> feeding_rule list \<Rightarrow> json_obj \<Rightarrow> py_error + json_obj" where
  "apply_feeding_rules food_type food_other [] acc = Inr acc"
| "apply_feeding_rules food_type food_other (rule # rest) acc =
     (case apply_feeding_rule food_type food_other rule acc of
        Inl e \<Rightarrow> Inl e
      | Inr acc' \<Rightarrow> apply_feeding_rules food_type food_other rest acc')"

text \<open>\<^verbatim>\<open>v or dflt\<close>.\<close>

definition py_or :: "jv \<Rightarrow> jv \<Rightarrow> jv" where
  "py_or v dflt = (if truthy v then v else dflt)"

text \<open>Steps 1 to 4 of the loop body: the \<^verbatim>\<open>items\<close> of one record.\<close>

definition build_items :: "json_obj \<Rightarrow> mappings \<Rightarrow> py_error + json_obj" where
  "build_items r m =
     (let stages_cfg = get_or (stages_flags m) \<lparr>cfg_field = None, cfg_flags = None\<rparr>;
          stages_field = get_or (cfg_field stages_cfg) ''inspectionBroodStages'';
          stage_flags = get_or (cfg_flags stages_cfg) [];
          stages = py_or (dict_get_default r stages_field (JList [])) (JList []);
          food_type = dict_get r ''feedBeesFoodType'';
          food_other = py_or (dict_get r ''feedBeesFoodTypeOther'') (JStr [])
      in case apply_enums r (get_or (enums m) []) (apply_field_map r (get_or (field_map m) []) []) of
           Inl e \<Rightarrow> Inl e
         | Inr acc2 \<Rightarrow>
             (case apply_stage_flags stages stage_flags acc2 of
                Inl e \<Rightarrow> Inl e
              | Inr acc3 \<Rightarrow>
                  apply_feeding_rules food_type food_other (get_or (feeding_rules m) []) acc3))"

subsection \<open>Hives, checklist, reminder\<close>

text \<open>
  5) \<^verbatim>\<open>[hive_map.get(h["name"]) for h in hs if hive_map.get(h["name"])]\<close>.
\<close>

fun resolve_hive_ids :: "(jv \<times> jv) list \<Rightarrow> jv list \<Rightarrow> py_error + jv list" where
  "resolve_hive_ids hive_map [] = Inr []"
| "resolve_hive_ids hive_map (h # hs) =
     (case py_getitem h ''name'' of
        Inl e \<Rightarrow> Inl e
      | Inr name \<Rightarrow>
          (case table_get hive_map name of
             Inl e \<Rightarrow> Inl e
           | Inr hid \<Rightarrow>
               (case resolve_hive_ids hive_map hs of
                  Inl e \<Rightarrow> Inl e
                | Inr ids \<Rightarrow> Inr (if truthy hid then hid # ids else ids))))"

definition hive_ids_of :: "(jv \<times> jv) list \<Rightarrow> json_obj \<Rightarrow> py_error + jv list" where
  "hive_ids_of hive_map r =
     (case py_iter (dict_get_default r ''hives'' (JList [])) of
        Inl e \<Rightarrow> Inl e
      | Inr hs \<Rightarrow> resolve_hive_ids hive_map hs)"

text \<open>
  6) \<^verbatim>\<open>checklist_map.get(rec_type) or checklist_map.get(checklist_fallback_name)\<close>.
\<close>

definition resolve_checklist :: "(jv \<times> jv) list \<Rightarrow> string \<Rightarrow> json_obj \<Rightarrow> py_error + jv" where
  "resolve_checklist checklist_map checklist_fallback_name r =
     (case table_get checklist_map (dict_get r ''type'') of
        Inl e \<Rightarrow> Inl e
      | Inr cid \<Rightarrow>
          if truthy cid then Inr cid
          else table_get checklist_map (JStr checklist_fallback_name))"

text \<open>
  7) \<^verbatim>\<open>None if rec_type in checklist_map else f"Missing: {r.get('type')}/{r.get('typeOther')}"\<close>.
\<close>

definition reminder_of :: "(jv \<times> jv) list \<Rightarrow> json_obj \<Rightarrow> py_error + jv" where
  "reminder_of checklist_map r =
     (case table_has checklist_map (dict_get r ''type'') of
        Inl e \<Rightarrow> Inl e
      | Inr found \<Rightarrow>
          Inr (if found then JNull
               else JStr (''Missing: '' @ py_str (dict_get r ''type'') @ ''/''
                          @ py_str (dict_get r ''typeOther''))))"

subsection \<open>\<^verbatim>\<open>transform_records\<close>\<close>

text \<open>The body of the loop: the payload of one record with its provenance.\<close>

definition transform_record ::
  "(jv \<times> jv) list \<Rightarrow> (jv \<times> jv) list \<Rightarrow> string \<Rightarrow> mappings \<Rightarrow> json_obj
   \<Rightarrow> py_error + (payload \<times> string \<times> string)" where
  "transform_record hive_map checklist_map checklist_fallback_name m r =
     (case build_items r m of
        Inl e \<Rightarrow> Inl e
      | Inr acc \<Rightarrow>
     (case hive_ids_of hive_map r of
        Inl e \<Rightarrow> Inl e
      | Inr hive_ids \<Rightarrow>
     (case resolve_checklist checklist_map checklist_fallback_name r of
        Inl e \<Rightarrow> Inl e
      | Inr cid \<Rightarrow>
     (case reminder_of checklist_map r of
        Inl e \<Rightarrow> Inl e
      | Inr reminder \<Rightarrow>
     (case normalize_date r of
        Inl e \<Rightarrow> Inl e
      | Inr adate \<Rightarrow>
          Inr (\<lparr>p_date = adate, p_checklist_id = cid, p_reminder = reminder,
                p_notes = dict_get r ''notes'', p_hive_ids = hive_ids, p_items = acc\<rparr>,
               py_str (dict_get r ''id''), py_str cid))))))"

text \<open>The loop over the records: the first exception ends it, and nothing is returned.\<close>

fun transform_loop ::
  "(jv \<times> jv) list \<Rightarrow> (jv \<times> jv) list \<Rightarrow> string \<Rightarrow> mappings \<Rightarrow> json_obj list
   \<Rightarrow> py_error + (payload \<times> string \<times> string) list" where
  "transform_loop hive_map checklist_map fb m [] = Inr []"
| "transform_loop hive_map checklist_map fb m (r # rs) =
     (case transform_record hive_map checklist_map fb m r of
        Inl e \<Rightarrow> Inl e
      | Inr t \<Rightarrow>
          (case transform_loop hive_map checklist_map fb m rs of
             Inl e \<Rightarrow> Inl e
           | Inr out \<Rightarrow> Inr (t # out)))"

definition transform_records ::
  "json_obj list \<Rightarrow> json_obj \<Rightarrow> json_obj \<Rightarrow> mappings
   \<Rightarrow> py_error + (payload \<times> string \<times> string) list" where
  "transform_records records beep_hives beep_checklists m =
     (case name_id_map beep_hives ''hives'' of
        Inl e \<Rightarrow> Inl e
      | Inr hive_map \<Rightarrow>
          (case name_id_map beep_checklists ''checklists'' of
             Inl e \<Rightarrow> Inl e
           | Inr checklist_map \<Rightarrow>
               transform_loop hive_map checklist_map
                 (get_or (checklist_fallback m) ''TBD'') m records))"

section \<open>Effects\<close>

text \<open>
  What a run does to the outside world is the list of its events, in order: every call
  of \<^verbatim>\<open>log\<close> (one constructor per call site, with the values it prints), every data file
  opened, every request to a remote service, every statement that writes the ledger and
  every \<^verbatim>\<open>time.sleep\<close>. Console output (\<^verbatim>\<open>print\<close>, the progress bar) repeats the log
  and is not traced; nor are the \<^verbatim>\<open>.env\<close> file, the log file and the opening of the
  database, which are local.
\<close>

datatype log_line =
    Importing_from_files
  | Importing_from_APIs
  | Fetching_page nat
  | File_not_found string
  | Loaded_file string
  | Uploading_records
  | Uploaded_inspection string
  | Failed_to_upload string
  | Dry_run_complete
  | Script_completed nat nat nat
  | Error_line py_error

datatype event =
    Log log_line
  | Open_file string
  | Write_preview "payload list"
  | Hivetracks_signin
  | Hivetracks_page nat
  | Beep_login
  | Beep_get string
  | Beep_store payload
  | Db_insert_or_ignore string string string
  | Sleep rat


text \<open>
  A step of the program that may raise: its value or the exception, and the events up to
  there. \<open>io_bind\<close> runs the next step only after a value, as statements in sequence do.
\<close>

type_synonym 'a io = "(py_error + 'a) \<times> event list"



section \<open>The upload driver\<close>

text \<open>
  \<^verbatim>\<open>requests.post\<close> raises (no connection, timeout) or returns a response with a status
  code; \<^verbatim>\<open>raise_for_status\<close> raises for the codes 400 to 599.
\<close>

datatype post_outcome = Raises py_error | Status int

definition raise_for_status :: "int \<Rightarrow> bool" where
  "raise_for_status code = (400 \<le> code \<and> code < 600)"

definition post_ok :: "post_outcome \<Rightarrow> bool" where
  "post_ok outcome = (case outcome of Raises e \<Rightarrow> False | Status code \<Rightarrow> \<not> raise_for_status code)"

text \<open>
  The loop of \<^verbatim>\<open>upload_records\<close>. \<open>post 0\<close> is the destination's answer to the current
  request, \<open>post 1\<close> to the next one, and so on.
\<close>

fun upload_records ::
  "(payload \<times> string \<times> string) list \<Rightarrow> (nat \<Rightarrow> post_outcome) \<Rightarrow> ledger \<Rightarrow> ledger \<times> event list" where
  "upload_records [] post conn = (conn, [])"
| "upload_records ((payload, src_id, cid) # rest) post conn =
     (if post_ok (post 0) then
        (let conn' = mark_imported conn src_id (p_date payload) cid;
             done = upload_records rest (\<lambda>i. post (Suc i)) conn'
         in (fst done,
             [Beep_store payload, Log (Uploaded_inspection (p_date payload)),
              Db_insert_or_ignore src_id (p_date payload) cid, Sleep (3 / 4)] @ snd done))
      else
        (let done = upload_records rest (\<lambda>i. post (Suc i)) conn
         in (fst done,
             [Beep_store payload, Log (Failed_to_upload (p_date payload)), Sleep (3 / 4)]
             @ snd done)))"

section \<open>\<^verbatim>\<open>main\<close>\<close>

record args =
  import_from_file :: bool
  dry_run :: bool
  upload :: bool
  mappings_file :: string

text \<open>
  The world a run meets: the environment variables, the ledger's store, the files under
  \<^verbatim>\<open>data\<close>, and what the remote services answer. The helpers \<^verbatim>\<open>get_hivetracks_token\<close>,
  \<^verbatim>\<open>get_page\<close>, \<^verbatim>\<open>get_beep_token\<close> and \<^verbatim>\<open>get_beep_data\<close> are one request each; their
  result, a value or an exception, is the service's to give. \<open>get_beep_token w n\<close> answers the
  \<open>n\<close>-th login of the run.
\<close>

record world =
  getenv :: "string \<Rightarrow> string option"
  store :: "ledger option"
  records_file :: "json_obj list file_content"
  checklists_file :: "json_obj file_content"
  hives_file :: "json_obj file_content"
  mappings_at :: "string \<Rightarrow> mappings file_content"
  get_hivetracks_token :: "py_error + string"
  get_page :: "nat \<Rightarrow> py_error + json_obj list"
  get_beep_token :: "nat \<Rightarrow> py_error + string"
  get_beep_lists :: "py_error + json_obj"
  get_beep_hives :: "py_error + json_obj"
  beep_store :: "nat \<Rightarrow> post_outcome"


text \<open>
  \<^verbatim>\<open>load_json_file\<close> with its log lines: a missing file is logged and raises before
  anything is opened.
\<close>

definition load_json_file_io :: "string \<Rightarrow> 'a file_content \<Rightarrow> 'a io" where
  "load_json_file_io path f =
     (case f of
        Missing \<Rightarrow> (Inl FileNotFoundError, [Log (File_not_found path)])
      | _ \<Rightarrow> (load_json_file f, [Log (Loaded_file path), Open_file path]))"

definition load_mappings_io :: "string \<Rightarrow> mappings file_content \<Rightarrow> mappings io" where
  "load_mappings_io path f = (load_mappings f, snd (load_json_file_io path f))"





text \<open>Line 324: the records whose id is not in the ledger.\<close>

definition records_to_import :: "ledger \<Rightarrow> json_obj list \<Rightarrow> json_obj list" where
  "records_to_import conn hivetracks_records =
     filter (\<lambda>r. py_str (dict_get r ''id'') \<notin> get_imported_ids conn) hivetracks_records"

text \<open>
  The state of a run when it ends: how it ended, the ledger, and the events. A run ends
  normally, through \<^verbatim>\<open>sys.exit(1)\<close> in the handler of line 348, or with an exception
  raised outside the \<^verbatim>\<open>try\<close>.
\<close>

datatype exit_status = Exit_ok | Exit_error py_error | Uncaught py_error

record run =
  status :: exit_status
  conn_after :: ledger
  events :: "event list"

text \<open>
  Lines 322 to 346, for the records and the reference data at hand. \<open>logins\<close> is the
  number of logins to the destination made before.
\<close>

definition import_records ::
  "world \<Rightarrow> args \<Rightarrow> nat \<Rightarrow> ledger \<Rightarrow> json_obj list \<Rightarrow> json_obj \<Rightarrow> json_obj \<Rightarrow> run" where
  "import_records w a logins conn hivetracks_records beep_checklists beep_hives =
     (let eligible = records_to_import conn hivetracks_records;
          loaded = load_mappings_io (mappings_file a) (mappings_at w (mappings_file a))
      in case fst loaded of
           Inl e \<Rightarrow> \<lparr>status = Exit_error e, conn_after = conn,
                     events = snd loaded @ [Log (Error_line e)]\<rparr>
         | Inr m \<Rightarrow>
             (case transform_records eligible beep_hives beep_checklists m of
                Inl e \<Rightarrow> \<lparr>status = Exit_error e, conn_after = conn,
                          events = snd loaded @ [Log (Error_line e)]\<rparr>
              | Inr transformed \<Rightarrow>
                  if dry_run a then
                    \<lparr>status = Exit_ok, conn_after = conn,
                     events = snd loaded @ [Write_preview (map fst transformed), Log Dry_run_complete]\<rparr>
                  else if upload a then
                    (case get_beep_token w logins of
                       Inl e \<Rightarrow> \<lparr>status = Exit_error e, conn_after = conn,
                                 events = snd loaded @ [Log Uploading_records, Beep_login,
                                                        Log (Error_line e)]\<rparr>
                     | Inr token \<Rightarrow>
                         (let done = upload_records transformed (beep_store w) conn
                          in \<lparr>status = Exit_ok, conn_after = fst done,
                              events = snd loaded @ [Log Uploading_records, Beep_login] @ snd done
                                @ [Log (Script_completed (length hivetracks_records)
                                          (length eligible) (length transformed))]\<rparr>))
                  else
                    \<lparr>status = Exit_ok, conn_after = conn,
                     events = snd loaded
                       @ [Log (Script_completed (length hivetracks_records)
                                 (length eligible) (length transformed))]\<rparr>))"



section \<open>Definitions for the statements\<close>

text \<open>Every id of a lookup table is true in Python's sense.\<close>

definition all_truthy :: "(jv \<times> jv) list \<Rightarrow> bool" where
  "all_truthy m = list_all (\<lambda>kv. truthy (snd kv)) m"

text \<open>
  The example of the specification: a hive reference that knows the hive \<^verbatim>\<open>A\<close> only, a
  checklist reference that knows the checklist \<^verbatim>\<open>TBD\<close> only, and a record of type
  \<^verbatim>\<open>Foo\<close> on the hives \<^verbatim>\<open>A\<close> and \<^verbatim>\<open>Unknown\<close>.
\<close>

definition ex_hives :: json_obj where
  "ex_hives = [(''hives'', JList [JObj [(''id'', JStr ''h1''), (''name'', JStr ''A'')]])]"

definition ex_checklists :: json_obj where
  "ex_checklists = [(''checklists'', JList [JObj [(''id'', JStr ''c9''), (''name'', JStr ''TBD'')]])]"

definition ex_record :: json_obj where
  "ex_record =
     [(''id'', JInt 77), (''actionDate'', JStr ''2024-05-11T12:34:56.789012Z''),
      (''type'', JStr ''Foo''),
      (''hives'', JList [JObj [(''name'', JStr ''A'')], JObj [(''name'', JStr ''Unknown'')]])]"

text \<open>The ruleset of an empty document.\<close>

definition ex_mappings :: mappings where
  "ex_mappings =
     \<lparr>field_map = None, enums = None, stages_flags = None, feeding_rules = None,
      checklist_fallback = None\<rparr>"

text \<open>The requests to the inspection endpoint, the ledger writes and the pauses of a trace.\<close>

fun posts :: "event list \<Rightarrow> payload list" where
  "posts [] = []"
| "posts (Beep_store p # evs) = p # posts evs"
| "posts (ev # evs) = posts evs"

fun marks :: "event list \<Rightarrow> (string \<times> string \<times> string) list" where
  "marks [] = []"
| "marks (Db_insert_or_ignore rid adate cid # evs) = (rid, adate, cid) # marks evs"
| "marks (ev # evs) = marks evs"

fun sleeps :: "event list \<Rightarrow> rat list" where
  "sleeps [] = []"
| "sleeps (Sleep d # evs) = d # sleeps evs"
| "sleeps (ev # evs) = sleeps evs"

text \<open>
  One attempt as the specification describes it: the request; on success the log line
  and the ledger write, on failure the log line only; then the pause.
\<close>

definition attempt :: "payload \<times> string \<times> string \<Rightarrow> post_outcome \<Rightarrow> event list" where
  "attempt t outcome =
     Beep_store (fst t)
     # (if post_ok outcome
        then [Log (Uploaded_inspection (p_date (fst t))),
              Db_insert_or_ignore (fst (snd t)) (p_date (fst t)) (snd (snd t))]
        else [Log (Failed_to_upload (p_date (fst t)))])
     @ [Sleep (3 / 4)]"

text \<open>The ledger after a list of writes.\<close>

definition mark_all :: "ledger \<Rightarrow> (string \<times> string \<times> string) list \<Rightarrow> ledger" where
  "mark_all conn ms = foldl (\<lambda>c m. mark_imported c (fst m) (fst (snd m)) (snd (snd m))) conn ms"

text \<open>Three payloads that differ in their date, for the records \<^verbatim>\<open>r1\<close>, \<^verbatim>\<open>r2\<close>, \<^verbatim>\<open>r3\<close>.\<close>

definition ex_payload :: "string \<Rightarrow> payload" where
  "ex_payload d =
     \<lparr>p_date = d, p_checklist_id = JStr ''c9'', p_reminder = JNull, p_notes = JNull,
      p_hive_ids = [], p_items = []\<rparr>"

definition ex_batch :: "(payload \<times> string \<times> string) list" where
  "ex_batch =
     [(ex_payload ''2024-05-11T12:34:56Z'', ''r1'', ''c9''),
      (ex_payload ''2024-05-12T12:34:56Z'', ''r2'', ''c9''),
      (ex_payload ''2024-05-13T12:34:56Z'', ''r3'', ''c9'')]"

text \<open>
  Success as the specification has it: a response whose status is one of 200 to 299.
\<close>

definition success_2xx :: "post_outcome \<Rightarrow> bool" where
  "success_2xx outcome =
     (case outcome of Raises e \<Rightarrow> False | Status code \<Rightarrow> 200 \<le> code \<and> code < 300)"

text \<open>The destination answers 201, then 500, then 201.\<close>

definition ex_post :: "nat \<Rightarrow> post_outcome" where
  "ex_post i = (if i = 1 then Status 500 else Status 201)"

text \<open>The id under which a source record is ledgered.\<close>

definition source_id :: "json_obj \<Rightarrow> string" where
  "source_id r = py_str (dict_get r ''id'')"

text \<open>Three source records, and a world whose destination answers 201, 500, 201.\<close>

definition ex_source :: "string \<Rightarrow> string \<Rightarrow> json_obj" where
  "ex_source rid adate = [(''id'', JStr rid), (''actionDate'', JStr adate)]"

definition ex_dataset :: "json_obj list" where
  "ex_dataset =
     [ex_source ''r1'' ''2024-05-11T12:34:56.789012Z'',
      ex_source ''r2'' ''2024-05-12T12:34:56.789012Z'',
      ex_source ''r3'' ''2024-05-13T12:34:56.789012Z'']"

definition ex_world :: world where
  "ex_world =
     \<lparr>getenv = (\<lambda>name. Some ''secret''), store = None,
      records_file = Parsed ex_dataset, checklists_file = Parsed [], hives_file = Parsed [],
      mappings_at = (\<lambda>path. Parsed ex_mappings),
      get_hivetracks_token = Inr ''token'',
      get_page = (\<lambda>page. if page = 0 then Inr ex_dataset else Inr []),
      get_beep_token = (\<lambda>n. Inr ''token''),
      get_beep_lists = Inr [], get_beep_hives = Inr [],
      beep_store = ex_post\<rparr>"

definition ex_args :: args where
  "ex_args =
     \<lparr>import_from_file = False, dry_run = False, upload = True,
      mappings_file = ''data/mappings.json''\<rparr>"

text \<open>The ruleset of the empty document after \<^verbatim>\<open>load_mappings\<close>, and the payload it gives
  a record that has an id and a date only.\<close>

definition ex_loaded :: mappings where
  "ex_loaded = \<lparr>field_map = Some [], enums = Some [],
       stages_flags = Some \<lparr>cfg_field = Some ''inspectionBroodStages'', cfg_flags = Some []\<rparr>,
       feeding_rules = Some [], checklist_fallback = Some ''TBD''\<rparr>"

definition ex_out :: "string \<Rightarrow> string \<Rightarrow> payload \<times> string \<times> string" where
  "ex_out rid d = (\<lparr>p_date = d, p_checklist_id = JNull,
                     p_reminder = JStr ''Missing: None/None'', p_notes = JNull, p_hive_ids = [],
                     p_items = []\<rparr>, rid, ''None'')"

text \<open>The same world with a destination that accepts every payload.\<close>

definition ex_world2 :: world where
  "ex_world2 = ex_world\<lparr>beep_store := (\<lambda>i. Status 201)\<rparr>"

text \<open>\<^verbatim>\<open>d.keys()\<close>.\<close>

definition dict_keys :: "json_obj \<Rightarrow> string set" where
  "dict_keys d = fst ` set d"

text \<open>The item codes a ruleset names, table by table.\<close>

definition field_map_codes :: "mappings \<Rightarrow> string list" where
  "field_map_codes m = map fst (get_or (field_map m) [])"

definition enum_codes :: "mappings \<Rightarrow> string list" where
  "enum_codes m =
     concat (map (\<lambda>fv. concat (map (\<lambda>vp. map fst (snd vp)) (snd fv))) (get_or (enums m) []))"

definition stage_codes :: "mappings \<Rightarrow> string list" where
  "stage_codes m =
     map (\<lambda>lc. py_str (snd lc))
       (get_or (cfg_flags (get_or (stages_flags m) \<lparr>cfg_field = None, cfg_flags = None\<rparr>)) [])"

definition feeding_codes :: "mappings \<Rightarrow> string list" where
  "feeding_codes m =
     concat (map (\<lambda>rule. map fst (get_or (rule_set rule) [])) (get_or (feeding_rules m) []))"

definition ruleset_codes :: "mappings \<Rightarrow> string list" where
  "ruleset_codes m = field_map_codes m @ enum_codes m @ stage_codes m @ feeding_codes m"

text \<open>A ruleset whose \<^verbatim>\<open>field_map\<close> copies the record id into the item \<^verbatim>\<open>1499\<close>.\<close>

definition legacy_mappings :: mappings where
  "legacy_mappings =
     \<lparr>field_map = Some [(''1499'', ''id'')], enums = Some [],
      stages_flags = Some \<lparr>cfg_field = Some ''inspectionBroodStages'', cfg_flags = Some []\<rparr>,
      feeding_rules = Some [], checklist_fallback = Some ''TBD''\<rparr>"

text \<open>
  What each rule table assigns for a record, as the specification words it: the pairs
  (item code, value) in the order the table lists them.
\<close>

definition field_map_sets :: "json_obj \<Rightarrow> (string \<times> string) list \<Rightarrow> json_obj" where
  "field_map_sets r fm =
     map (\<lambda>cf. (fst cf, dict_get r (snd cf)))
       (filter (\<lambda>cf. map_of r (snd cf) \<noteq> None \<and> dict_get r (snd cf) \<noteq> JNull) fm)"

definition enum_sets :: "json_obj \<Rightarrow> (string \<times> (string \<times> json_obj) list) list \<Rightarrow> json_obj" where
  "enum_sets r en =
     concat (map (\<lambda>fv. case str_dict_find (dict_get r (fst fv)) (snd fv) of
                          Inr (Some pairs) \<Rightarrow> pairs
                        | _ \<Rightarrow> []) en)"

definition stage_sets :: "jv \<Rightarrow> (string \<times> jv) list \<Rightarrow> json_obj" where
  "stage_sets stages flags =
     map (\<lambda>lc. (py_str (snd lc), JBool True))
       (filter (\<lambda>lc. contains_str (fst lc) stages = Inr True) flags)"

text \<open>
  A feeding rule matches on an exact food type, on one of its substrings in the free
  text, or on its substring in the free text.
\<close>

definition rule_matches :: "jv \<Rightarrow> jv \<Rightarrow> feeding_rule \<Rightarrow> bool" where
  "rule_matches food_type food_other rule =
     ((case if_type rule of None \<Rightarrow> False | Some t \<Rightarrow> food_type = JStr t)
      \<or> (case if_other_contains_any rule of
            None \<Rightarrow> False
          | Some xs \<Rightarrow> any_contains xs food_other = Inr True)
      \<or> (case if_other_contains rule of
            None \<Rightarrow> False
          | Some x \<Rightarrow> contains_str x food_other = Inr True))"

definition feeding_sets :: "jv \<Rightarrow> jv \<Rightarrow> feeding_rule list \<Rightarrow> json_obj" where
  "feeding_sets food_type food_other rules =
     concat (map (\<lambda>rule. get_or (rule_set rule) []) (filter (rule_matches food_type food_other) rules))"

text \<open>The value of the last assignment to a code in a list of assignments.\<close>

definition last_set :: "json_obj \<Rightarrow> string \<Rightarrow> jv option" where
  "last_set sets k = map_of (rev sets) k"

text \<open>The values of a record that the stage flags and the feeding rules test.\<close>

definition stages_of :: "json_obj \<Rightarrow> mappings \<Rightarrow> jv" where
  "stages_of r m =
     py_or (dict_get_default r
              (get_or (cfg_field (get_or (stages_flags m) \<lparr>cfg_field = None, cfg_flags = None\<rparr>))
                 ''inspectionBroodStages'')
              (JList []))
       (JList [])"

definition stage_flags_of :: "mappings \<Rightarrow> (string \<times> jv) list" where
  "stage_flags_of m =
     get_or (cfg_flags (get_or (stages_flags m) \<lparr>cfg_field = None, cfg_flags = None\<rparr>)) []"

definition food_type_of :: "json_obj \<Rightarrow> jv" where
  "food_type_of r = dict_get r ''feedBeesFoodType''"

definition food_other_of :: "json_obj \<Rightarrow> jv" where
  "food_other_of r = py_or (dict_get r ''feedBeesFoodTypeOther'') (JStr [])"

text \<open>
  A record that every table serves, and a ruleset in which all four tables set the item
  \<^verbatim>\<open>10\<close> and two matching feeding rules set the item \<^verbatim>\<open>30\<close>.
\<close>

definition ex_fed_record :: json_obj where
  "ex_fed_record =
     [(''id'', JInt 77), (''actionDate'', JStr ''2024-05-11T12:34:56.789012Z''),
      (''notes'', JStr ''calm''), (''queen'', JStr ''yes''),
      (''inspectionBroodStages'', JList [JStr ''Eggs'']),
      (''feedBeesFoodType'', JStr ''Sugar''), (''feedBeesFoodTypeOther'', JStr ''a pollen patty'')]"

definition ex_overlapping :: mappings where
  "ex_overlapping =
     \<lparr>field_map = Some [(''10'', ''notes''), (''11'', ''notes'')],
      enums = Some [(''queen'', [(''yes'', [(''10'', JInt 1), (''12'', JInt 1)])])],
      stages_flags = Some \<lparr>cfg_field = None, cfg_flags = Some [(''Eggs'', JInt 10), (''Eggs'', JInt 13)]\<rparr>,
      feeding_rules = Some
        [\<lparr>if_type = Some ''Sugar'', if_other_contains_any = None, if_other_contains = None,
          rule_set = Some [(''10'', JInt 5), (''30'', JInt 5)]\<rparr>,
         \<lparr>if_type = None, if_other_contains_any = Some [''honey'', ''patty''], if_other_contains = None,
          rule_set = Some [(''30'', JInt 6)]\<rparr>,
         \<lparr>if_type = None, if_other_contains_any = None, if_other_contains = Some ''syrup'',
          rule_set = Some [(''30'', JInt 7)]\<rparr>],
      checklist_fallback = None\<rparr>"

subsection \<open>Dates: the specification's pattern and the accepted texts\<close>

text \<open>
  The specification's pattern \<^verbatim>\<open>YYYY-MM-DDTHH:MM:SS.ffffffZ\<close>, read to the letter: a digit
  where the pattern has one of the letters \<^verbatim>\<open>Y M D H S f\<close>, the pattern's own character
  elsewhere.
\<close>

definition source_pattern :: string where
  "source_pattern = ''YYYY-MM-DDTHH:MM:SS.ffffffZ''"

definition matches_source_pattern :: "string \<Rightarrow> bool" where
  "matches_source_pattern s =
     list_all2 (\<lambda>p c. if p \<in> set ''YMDHSf'' then is_digit c else c = p) source_pattern s"

text \<open>
  The strings the format \<^verbatim>\<open>%Y-%m-%dT%H:%M:%S.%fZ\<close> accepts, with the date and time they
  denote: a year of four digits, month, day, hour, minute and second of one or two
  digits (the day may also be a blank and a digit), a fraction of one to six digits,
  the separators of the pattern with \<^verbatim>\<open>T\<close> and \<^verbatim>\<open>Z\<close> in either case, and values that
  make a date and a time of day.
\<close>

definition digits :: "string \<Rightarrow> bool" where
  "digits ds = list_all is_digit ds"

definition valid_datetime :: "datetime \<Rightarrow> bool" where
  "valid_datetime t =
     (1 \<le> dt_year t \<and> 1 \<le> dt_month t \<and> dt_month t \<le> 12
      \<and> 1 \<le> dt_day t \<and> dt_day t \<le> days_in_month (dt_year t) (dt_month t)
      \<and> dt_hour t \<le> 23 \<and> dt_minute t \<le> 59 \<and> dt_second t \<le> 59)"

definition accepted_date :: "string \<Rightarrow> datetime \<Rightarrow> bool" where
  "accepted_date s t =
     (\<exists>Y mo d h mi se f sepT sepZ.
        s = Y @ ''-'' @ mo @ ''-'' @ d @ sepT # h @ '':'' @ mi @ '':'' @ se @ ''.'' @ f @ [sepZ]
        \<and> digits Y \<and> length Y = 4
        \<and> digits mo \<and> (length mo = 1 \<or> length mo = 2)
        \<and> (digits d \<and> (length d = 1 \<or> length d = 2)
            \<or> (\<exists>b. d = [CHR '' '', b] \<and> b \<in> set ''123456789''))
        \<and> digits h \<and> (length h = 1 \<or> length h = 2)
        \<and> digits mi \<and> (length mi = 1 \<or> length mi = 2)
        \<and> digits se \<and> (length se = 1 \<or> length se = 2)
        \<and> digits f \<and> 1 \<le> length f \<and> length f \<le> 6
        \<and> (sepT = CHR ''T'' \<or> sepT = CHR ''t'') \<and> (sepZ = CHR ''Z'' \<or> sepZ = CHR ''z'')
        \<and> t = \<lparr>dt_year = num Y, dt_month = num mo, dt_day = num (filter is_digit d),
                 dt_hour = num h, dt_minute = num mi, dt_second = num se\<rparr>
        \<and> valid_datetime t)"

text \<open>The date and time a text of the specification's pattern carries at its fixed places.\<close>

definition pattern_datetime :: "string \<Rightarrow> datetime" where
  "pattern_datetime s =
     \<lparr>dt_year = num (take 4 s), dt_month = num (take 2 (drop 5 s)),
      dt_day = num (take 2 (drop 8 s)), dt_hour = num (take 2 (drop 11 s)),
      dt_minute = num (take 2 (drop 14 s)), dt_second = num (take 2 (drop 17 s))\<rparr>"

text \<open>Records for the examples: a date with three digits of fraction, and no date at all.\<close>

definition ex_short_fraction :: json_obj where
  "ex_short_fraction = [(''id'', JStr ''r4''), (''actionDate'', JStr ''2024-05-11T12:34:56.789Z'')]"

definition ex_undated :: json_obj where
  "ex_undated = [(''id'', JStr ''r5'')]"

text \<open>A record of the year 999, written on four digits as the pattern asks.\<close>

definition ex_early :: json_obj where
  "ex_early = [(''id'', JStr ''r6''), (''actionDate'', JStr ''0999-01-02T03:04:05.000000Z'')]"

subsection \<open>Configuration: the credentials and the ruleset\<close>






section \<open>Properties of the ledger\<close>

lemma primary_key_ok_init_db_None: "primary_key_ok (init_db None)"
  by (simp add: primary_key_ok_def init_db_def)

lemma primary_key_ok_mark_imported:
  "primary_key_ok conn \<Longrightarrow> primary_key_ok (mark_imported conn rid adate cid)"
  by (simp add: primary_key_ok_def mark_imported_def)

lemma get_imported_ids_mark_imported:
  "get_imported_ids (mark_imported conn rid adate cid) = insert rid (get_imported_ids conn)"
  by (auto simp: get_imported_ids_def mark_imported_def)

lemma mark_imported_known:
  "rid \<in> get_imported_ids conn \<Longrightarrow> mark_imported conn rid adate cid = conn"
  by (simp add: get_imported_ids_def mark_imported_def)

lemma entries_for_fresh:
  "rid \<notin> get_imported_ids conn \<Longrightarrow> entries_for conn rid = []"
  by (induction conn) (auto simp: entries_for_def get_imported_ids_def)

lemma entries_for_mark_imported_fresh:
  "rid \<notin> get_imported_ids conn \<Longrightarrow>
   entries_for (mark_imported conn rid adate cid) rid =
     [\<lparr>record_id = rid, action_date = adate, checklist_id = cid\<rparr>]"
  using entries_for_fresh [of rid conn]
  by (simp add: mark_imported_def entries_for_def get_imported_ids_def)

lemma entries_for_length_known:
  "primary_key_ok conn \<Longrightarrow> rid \<in> get_imported_ids conn \<Longrightarrow>
   length (entries_for conn rid) = 1"
proof (induction conn)
  case Nil
  then show ?case by (simp add: get_imported_ids_def)
next
  case (Cons row conn)
  show ?case
  proof (cases "record_id row = rid")
    case True
    with Cons.prems have "rid \<notin> get_imported_ids conn"
      by (auto simp: primary_key_ok_def get_imported_ids_def)
    then have "entries_for conn rid = []" by (rule entries_for_fresh)
    with True show ?thesis by (simp add: entries_for_def)
  next
    case False
    with Cons.prems have "primary_key_ok conn" "rid \<in> get_imported_ids conn"
      by (auto simp: primary_key_ok_def get_imported_ids_def)
    then have "length (entries_for conn rid) = 1" by (rule Cons.IH)
    with False show ?thesis by (simp add: entries_for_def)
  qed
qed

text \<open>
  Claim C7. The ledger's mark operation is first-write-wins and duplicate-safe: a second
  mark of a record id, whatever action date and checklist id it carries, is a no-op; in
  a table that obeys its primary key the id then has exactly one entry; and when the
  first mark wrote the entry, that entry keeps the first-written action date and
  checklist id.
\<close>

theorem mark_imported_first_write_wins:
  "mark_imported (mark_imported conn rid adate cid) rid adate' cid' =
     mark_imported conn rid adate cid
   \<and> (primary_key_ok conn \<longrightarrow>
        length (entries_for (mark_imported (mark_imported conn rid adate cid) rid adate' cid') rid) = 1)
   \<and> (rid \<notin> get_imported_ids conn \<longrightarrow>
        entries_for (mark_imported (mark_imported conn rid adate cid) rid adate' cid') rid =
          [\<lparr>record_id = rid, action_date = adate, checklist_id = cid\<rparr>])"
proof -
  let ?once = "mark_imported conn rid adate cid"
  have known: "rid \<in> get_imported_ids ?once"
    by (simp add: get_imported_ids_mark_imported)
  then have noop: "mark_imported ?once rid adate' cid' = ?once"
    by (rule mark_imported_known)
  have one: "length (entries_for ?once rid) = 1" if "primary_key_ok conn"
    using primary_key_ok_mark_imported [OF that] known by (rule entries_for_length_known)
  have first: "entries_for ?once rid =
      [\<lparr>record_id = rid, action_date = adate, checklist_id = cid\<rparr>]"
    if "rid \<notin> get_imported_ids conn"
    using that by (rule entries_for_mark_imported_fresh)
  from noop one first show ?thesis by simp
qed

theorem mark_imported_first_write_wins_witness:
  "primary_key_ok (init_db None) \<and> ''r1'' \<notin> get_imported_ids (init_db None)
   \<and> mark_imported (mark_imported (init_db None) ''r1'' ''2024-05-11T12:34:56Z'' ''c9'')
        ''r1'' ''2025-01-01T00:00:00Z'' ''c7''
      = [\<lparr>record_id = ''r1'', action_date = ''2024-05-11T12:34:56Z'', checklist_id = ''c9''\<rparr>]
   \<and> entries_for
        (mark_imported (mark_imported (init_db None) ''r1'' ''2024-05-11T12:34:56Z'' ''c9'')
           ''r1'' ''2025-01-01T00:00:00Z'' ''c7'') ''r1''
      = [\<lparr>record_id = ''r1'', action_date = ''2024-05-11T12:34:56Z'', checklist_id = ''c9''\<rparr>]"
  using mark_imported_first_write_wins
    [of "init_db None" "''r1''" "''2024-05-11T12:34:56Z''" "''c9''" "''2025-01-01T00:00:00Z''" "''c7''"]
  by (simp add: init_db_def get_imported_ids_def primary_key_ok_def mark_imported_def)

section \<open>Properties of the reference tables and the hive resolution\<close>

lemma all_truthy_update:
  "all_truthy m \<Longrightarrow> truthy v \<Longrightarrow> all_truthy (AList.update k v m)"
  by (induction m) (auto simp: all_truthy_def)

lemma all_truthy_map_of:
  "all_truthy m \<Longrightarrow> map_of m k = Some v \<Longrightarrow> truthy v"
  by (induction m) (auto simp: all_truthy_def split: if_splits)

lemma name_id_entries_truthy:
  "name_id_entries hs m = Inr m' \<Longrightarrow> all_truthy m \<Longrightarrow> all_truthy m'"
proof (induction hs arbitrary: m)
  case Nil
  then show ?case by simp
next
  case (Cons h hs)
  then show ?case
    by (auto split: sum.splits if_splits intro: all_truthy_update)
qed

lemma name_id_map_truthy:
  "name_id_map ref key = Inr m \<Longrightarrow> all_truthy m"
  unfolding name_id_map_def
  by (auto split: sum.splits dest: name_id_entries_truthy simp: all_truthy_def)

lemma table_get_key:
  "py_key x = Inr k \<Longrightarrow> table_get m x = Inr (case map_of m k of None \<Rightarrow> JNull | Some v \<Rightarrow> v)"
  by (simp add: table_get_def)

lemma table_has_key:
  "py_key x = Inr k \<Longrightarrow> table_has m x = Inr (map_of m k \<noteq> None)"
  by (simp add: table_has_def)

lemma resolve_hive_ids_map_filter:
  assumes "list_all2 (\<lambda>h k. \<exists>n. py_getitem h ''name'' = Inr n \<and> py_key n = Inr k) hs keys"
    and "all_truthy hive_map"
  shows "resolve_hive_ids hive_map hs = Inr (List.map_filter (map_of hive_map) keys)"
  using assms(1)
proof (induction rule: list_all2_induct)
  case Nil
  show ?case by (simp add: List.map_filter_simps)
next
  case (Cons h hs k keys)
  then obtain n where n: "py_getitem h ''name'' = Inr n" "py_key n = Inr k" by blast
  show ?case
  proof (cases "map_of hive_map k")
    case None
    with n Cons.IH show ?thesis
      by (simp add: table_get_key List.map_filter_simps)
  next
    case (Some v)
    with assms(2) have "truthy v" by (auto dest: all_truthy_map_of)
    with Some n Cons.IH show ?thesis
      by (simp add: table_get_key List.map_filter_simps)
  qed
qed

text \<open>
  Claim C5. The hive ids of a record are the ids the hive reference gives for the
  record's hive names, in the record's order; a name the reference does not know is
  dropped, and the resolution does not fail for it. With the names \<^verbatim>\<open>A\<close> and
  \<^verbatim>\<open>Unknown\<close> and a reference that maps \<^verbatim>\<open>A\<close> to \<^verbatim>\<open>h1\<close> only, the hive ids are
  exactly \<^verbatim>\<open>["h1"]\<close>.
\<close>

theorem hive_ids_drop_unknown:
  assumes "name_id_map beep_hives ''hives'' = Inr hive_map"
    and "py_iter (dict_get_default r ''hives'' (JList [])) = Inr hs"
    and "list_all2 (\<lambda>h k. \<exists>n. py_getitem h ''name'' = Inr n \<and> py_key n = Inr k) hs keys"
  shows "hive_ids_of hive_map r = Inr (List.map_filter (map_of hive_map) keys)
    \<and> (\<forall>t. transform_record hive_map checklist_map fb m r = Inr t
          \<longrightarrow> p_hive_ids (fst t) = List.map_filter (map_of hive_map) keys)"
proof -
  have truthy: "all_truthy hive_map" using assms(1) by (rule name_id_map_truthy)
  have ids: "hive_ids_of hive_map r = Inr (List.map_filter (map_of hive_map) keys)"
    using assms(2) resolve_hive_ids_map_filter [OF assms(3) truthy]
    by (simp add: hive_ids_of_def)
  have "p_hive_ids (fst t) = List.map_filter (map_of hive_map) keys"
    if "transform_record hive_map checklist_map fb m r = Inr t" for t
    using that ids by (auto simp: transform_record_def split: sum.splits)
  with ids show ?thesis by blast
qed

lemma ex_name_id_map: "name_id_map ex_hives ''hives'' = Inr [(JStr ''A'', JStr ''h1'')]"
  by (simp add: name_id_map_def ex_hives_def dict_get_default_def dict_get_def)

theorem hive_ids_drop_unknown_witness:
  "name_id_map ex_hives ''hives'' = Inr [(JStr ''A'', JStr ''h1'')]
   \<and> py_iter (dict_get_default ex_record ''hives'' (JList []))
       = Inr [JObj [(''name'', JStr ''A'')], JObj [(''name'', JStr ''Unknown'')]]
   \<and> hive_ids_of [(JStr ''A'', JStr ''h1'')] ex_record = Inr [JStr ''h1'']"
proof -
  have a: "py_iter (dict_get_default ex_record ''hives'' (JList []))
       = Inr [JObj [(''name'', JStr ''A'')], JObj [(''name'', JStr ''Unknown'')]]"
    by (simp add: ex_record_def dict_get_default_def)
  have b: "list_all2 (\<lambda>h k. \<exists>n. py_getitem h ''name'' = Inr n \<and> py_key n = Inr k)
     [JObj [(''name'', JStr ''A'')], JObj [(''name'', JStr ''Unknown'')]] [JStr ''A'', JStr ''Unknown'']"
    by simp
  from hive_ids_drop_unknown [OF ex_name_id_map a b]
  show ?thesis using a ex_name_id_map by (simp add: List.map_filter_simps)
qed

section \<open>Properties of the checklist resolution\<close>

lemma py_key_JStr: "py_key (JStr s) = Inr (JStr s)"
  by simp

lemma resolve_checklist_key:
  assumes "all_truthy cm" and "py_key (dict_get r ''type'') = Inr k"
  shows "resolve_checklist cm fb r =
     Inr (case map_of cm k of
            Some c \<Rightarrow> c
          | None \<Rightarrow> (case map_of cm (JStr fb) of Some c \<Rightarrow> c | None \<Rightarrow> JNull))"
proof (cases "map_of cm k")
  case None
  then show ?thesis
    using assms(2) by (simp add: resolve_checklist_def table_get_key)
next
  case (Some c)
  with assms(1) have "truthy c" by (auto dest: all_truthy_map_of)
  with Some show ?thesis
    using assms(2) by (simp add: resolve_checklist_def table_get_key)
qed

lemma reminder_of_key:
  assumes "py_key (dict_get r ''type'') = Inr k"
  shows "reminder_of cm r =
     Inr (if map_of cm k \<noteq> None then JNull
          else JStr (''Missing: '' @ py_str (dict_get r ''type'') @ ''/''
                     @ py_str (dict_get r ''typeOther'')))"
  using assms by (simp add: reminder_of_def table_has_key)

text \<open>
  Claim C4. The checklist id of a record is the id the checklist reference gives for
  the record's type; if the reference does not know the type, the id it gives for the
  configured fallback name; if it does not know that either, \<^verbatim>\<open>None\<close>. The reminder is
  \<^verbatim>\<open>None\<close> exactly when the type was found, and otherwise a text that names the type
  and its \<^verbatim>\<open>typeOther\<close>. With type \<^verbatim>\<open>Foo\<close> unknown and the fallback \<^verbatim>\<open>TBD\<close> mapped to
  \<^verbatim>\<open>c9\<close>, the checklist id is \<^verbatim>\<open>c9\<close> and the reminder names \<^verbatim>\<open>Foo\<close>.
\<close>

theorem checklist_fallback_resolution:
  assumes "name_id_map beep_checklists ''checklists'' = Inr cm"
    and "py_key (dict_get r ''type'') = Inr k"
  shows "resolve_checklist cm fb r =
       Inr (case map_of cm k of
              Some c \<Rightarrow> c
            | None \<Rightarrow> (case map_of cm (JStr fb) of Some c \<Rightarrow> c | None \<Rightarrow> JNull))
    \<and> reminder_of cm r =
       Inr (if map_of cm k \<noteq> None then JNull
            else JStr (''Missing: '' @ py_str (dict_get r ''type'') @ ''/''
                       @ py_str (dict_get r ''typeOther'')))
    \<and> (\<forall>t. transform_record hm cm fb m r = Inr t \<longrightarrow>
          p_checklist_id (fst t) =
            (case map_of cm k of
               Some c \<Rightarrow> c
             | None \<Rightarrow> (case map_of cm (JStr fb) of Some c \<Rightarrow> c | None \<Rightarrow> JNull))
        \<and> (p_reminder (fst t) = JNull) = (map_of cm k \<noteq> None)
        \<and> (map_of cm k = None \<longrightarrow>
             (\<exists>text. p_reminder (fst t) = JStr text
                \<and> sublist (py_str (dict_get r ''type'')) text
                \<and> sublist (py_str (dict_get r ''typeOther'')) text)))"
proof -
  have truthy: "all_truthy cm" using assms(1) by (rule name_id_map_truthy)
  note c = resolve_checklist_key [OF truthy assms(2), of fb]
  note rm = reminder_of_key [OF assms(2), of cm]
  have "p_checklist_id (fst t) =
            (case map_of cm k of
               Some c \<Rightarrow> c
             | None \<Rightarrow> (case map_of cm (JStr fb) of Some c \<Rightarrow> c | None \<Rightarrow> JNull))
        \<and> (p_reminder (fst t) = JNull) = (map_of cm k \<noteq> None)
        \<and> (map_of cm k = None \<longrightarrow>
             (\<exists>text. p_reminder (fst t) = JStr text
                \<and> sublist (py_str (dict_get r ''type'')) text
                \<and> sublist (py_str (dict_get r ''typeOther'')) text))"
    if t: "transform_record hm cm fb m r = Inr t" for t
  proof -
    from t obtain acc hive_ids adate where
      "t = (\<lparr>p_date = adate,
             p_checklist_id = (case map_of cm k of
               Some c \<Rightarrow> c
             | None \<Rightarrow> (case map_of cm (JStr fb) of Some c \<Rightarrow> c | None \<Rightarrow> JNull)),
             p_reminder = (if map_of cm k \<noteq> None then JNull
                else JStr (''Missing: '' @ py_str (dict_get r ''type'') @ ''/''
                       @ py_str (dict_get r ''typeOther''))),
             p_notes = dict_get r ''notes'', p_hive_ids = hive_ids, p_items = acc\<rparr>,
            py_str (dict_get r ''id''),
            py_str (case map_of cm k of
               Some c \<Rightarrow> c
             | None \<Rightarrow> (case map_of cm (JStr fb) of Some c \<Rightarrow> c | None \<Rightarrow> JNull)))"
      unfolding transform_record_def c rm
      by (auto split: sum.splits)
    moreover have "sublist a (''Missing: '' @ a @ ''/'' @ b)" for a b :: string
      by (rule sublist_appendI)
    moreover have "sublist b (''Missing: '' @ a @ ''/'' @ b)" for a b :: string
      using sublist_appendI [of b "''Missing: '' @ a @ ''/''" "[]"] by simp
    ultimately show ?thesis by auto
  qed
  with c rm show ?thesis by blast
qed

lemma ex_checklist_map: "name_id_map ex_checklists ''checklists'' = Inr [(JStr ''TBD'', JStr ''c9'')]"
  by (simp add: name_id_map_def ex_checklists_def dict_get_default_def dict_get_def)

theorem checklist_fallback_resolution_witness:
  "name_id_map ex_checklists ''checklists'' = Inr [(JStr ''TBD'', JStr ''c9'')]
   \<and> py_key (dict_get ex_record ''type'') = Inr (JStr ''Foo'')
   \<and> resolve_checklist [(JStr ''TBD'', JStr ''c9'')] ''TBD'' ex_record = Inr (JStr ''c9'')
   \<and> reminder_of [(JStr ''TBD'', JStr ''c9'')] ex_record = Inr (JStr ''Missing: Foo/None'')"
proof -
  have k: "py_key (dict_get ex_record ''type'') = Inr (JStr ''Foo'')"
    by (simp add: ex_record_def dict_get_def dict_get_default_def)
  from checklist_fallback_resolution [OF ex_checklist_map k, of "''TBD''"]
  show ?thesis using k ex_checklist_map
    by (simp add: ex_record_def dict_get_def dict_get_default_def)
qed

section \<open>Properties of the upload driver\<close>

lemma posts_append: "posts (xs @ ys) = posts xs @ posts ys"
  by (induction xs rule: posts.induct) auto

lemma marks_append: "marks (xs @ ys) = marks xs @ marks ys"
  by (induction xs rule: marks.induct) auto

lemma sleeps_append: "sleeps (xs @ ys) = sleeps xs @ sleeps ys"
  by (induction xs rule: sleeps.induct) auto

lemma posts_attempt: "posts (attempt t outcome) = [fst t]"
  by (simp add: attempt_def)

lemma sleeps_attempt: "sleeps (attempt t outcome) = [3 / 4]"
  by (simp add: attempt_def)

lemma marks_attempt:
  "marks (attempt t outcome) =
     (if post_ok outcome then [(fst (snd t), p_date (fst t), snd (snd t))] else [])"
  by (simp add: attempt_def)

lemma upload_records_step:
  "upload_records (t # ts) post conn =
     (fst (upload_records ts (\<lambda>i. post (Suc i)) (mark_all conn (marks (attempt t (post 0))))),
      attempt t (post 0)
      @ snd (upload_records ts (\<lambda>i. post (Suc i)) (mark_all conn (marks (attempt t (post 0))))))"
  by (cases t) (simp add: attempt_def mark_all_def Let_def)

lemma upt_shift: "map f [0..<Suc n] = f 0 # map (\<lambda>i. f (Suc i)) [0..<n]"
  by (simp add: upt_conv_Cons map_Suc_upt [symmetric] del: upt_Suc)

lemma upload_records_events:
  "snd (upload_records ts post conn) =
     concat (map (\<lambda>i. attempt (ts ! i) (post i)) [0..<length ts])"
proof (induction ts arbitrary: post conn)
  case Nil
  show ?case by simp
next
  case (Cons t ts)
  have "map (\<lambda>i. attempt ((t # ts) ! i) (post i)) [0..<Suc (length ts)] =
      attempt t (post 0) # map (\<lambda>i. attempt (ts ! i) (post (Suc i))) [0..<length ts]"
    by (simp add: upt_shift del: upt_Suc)
  then show ?case
    by (simp add: upload_records_step Cons.IH del: upload_records.simps upt_Suc)
qed

lemma mark_all_append: "mark_all conn (xs @ ys) = mark_all (mark_all conn xs) ys"
  by (simp add: mark_all_def)

lemma upload_records_ledger:
  "fst (upload_records ts post conn) = mark_all conn (marks (snd (upload_records ts post conn)))"
proof (induction ts arbitrary: post conn)
  case Nil
  show ?case by (simp add: mark_all_def)
next
  case (Cons t ts)
  show ?case
    by (simp add: upload_records_step marks_append mark_all_append Cons.IH [symmetric]
        del: upload_records.simps)
qed

lemma upload_records_posts: "posts (snd (upload_records ts post conn)) = map fst ts"
proof (induction ts arbitrary: post conn)
  case Nil
  show ?case by simp
next
  case (Cons t ts)
  show ?case
    by (simp add: upload_records_step posts_append posts_attempt Cons.IH
        del: upload_records.simps)
qed

lemma upload_records_sleeps:
  "sleeps (snd (upload_records ts post conn)) = replicate (length ts) (3 / 4)"
proof (induction ts arbitrary: post conn)
  case Nil
  show ?case by simp
next
  case (Cons t ts)
  show ?case
    by (simp add: upload_records_step sleeps_append sleeps_attempt Cons.IH
        del: upload_records.simps)
qed

lemma filter_upt_shift:
  "map f (filter P [0..<Suc n]) =
     (if P 0 then [f 0] else []) @ map (\<lambda>i. f (Suc i)) (filter (\<lambda>i. P (Suc i)) [0..<n])"
proof -
  have "[0..<Suc n] = 0 # map Suc [0..<n]"
    by (simp add: upt_conv_Cons map_Suc_upt del: upt_Suc)
  then show ?thesis
    by (simp add: filter_map comp_def del: upt_Suc)
qed

lemma upload_records_marks:
  "marks (snd (upload_records ts post conn)) =
     map (\<lambda>i. (fst (snd (ts ! i)), p_date (fst (ts ! i)), snd (snd (ts ! i))))
       (filter (\<lambda>i. post_ok (post i)) [0..<length ts])"
proof (induction ts arbitrary: post conn)
  case Nil
  show ?case by simp
next
  case (Cons t ts)
  show ?case
    by (simp add: upload_records_step marks_append marks_attempt Cons.IH filter_upt_shift
        del: upload_records.simps upt_Suc)
qed

lemma post_ok_2xx: "200 \<le> code \<Longrightarrow> code < 300 \<Longrightarrow> post_ok (Status code)"
  by (simp add: post_ok_def raise_for_status_def)

lemma post_ok_Raises: "\<not> post_ok (Raises e)"
  by (simp add: post_ok_def)

lemma post_ok_error_status: "400 \<le> code \<Longrightarrow> code < 600 \<Longrightarrow> \<not> post_ok (Status code)"
  by (simp add: post_ok_def raise_for_status_def)

lemma post_ok_Status: "post_ok (Status code) = (code < 400 \<or> 600 \<le> code)"
  by (auto simp: post_ok_def raise_for_status_def)

lemma success_2xx_post_ok: "success_2xx outcome \<Longrightarrow> post_ok outcome"
  by (cases outcome) (simp_all add: success_2xx_def post_ok_2xx)

text \<open>
  Claim C8, as stated, against the code. The claim makes the responses with a 2xx status
  the successful submissions and every other attempt a failure that marks nothing. A
  submission answered \<^verbatim>\<open>304\<close> is no 2xx response, yet \<^verbatim>\<open>raise_for_status\<close> does not raise for
  it (it raises for 400 to 599 only), and the record is written to the ledger.
\<close>

theorem not_modified_is_ledgered_counterexample:
  "\<not> success_2xx (Status 304)
   \<and> snd (upload_records [(ex_payload ''2024-05-11T12:34:56Z'', ''r1'', ''c9'')]
            (\<lambda>i. Status 304) []) =
       [Beep_store (ex_payload ''2024-05-11T12:34:56Z''),
        Log (Uploaded_inspection ''2024-05-11T12:34:56Z''),
        Db_insert_or_ignore ''r1'' ''2024-05-11T12:34:56Z'' ''c9'', Sleep (3 / 4)]
   \<and> fst (upload_records [(ex_payload ''2024-05-11T12:34:56Z'', ''r1'', ''c9'')]
            (\<lambda>i. Status 304) []) =
       [\<lparr>record_id = ''r1'', action_date = ''2024-05-11T12:34:56Z'', checklist_id = ''c9''\<rparr>]"
  by (simp add: success_2xx_def post_ok_def raise_for_status_def ex_payload_def
      mark_imported_def Let_def)

text \<open>
  Claim C8, amended. The upload driver submits the payloads in input order, each exactly
  once (no retries). A submission succeeds when the request raises no exception and the
  status of the response is not one of 400 to 599: that is every 2xx response, and also a
  response with any other status below 400 or from 600 on. A successful submission is
  logged and marks the ledger with the record's id, its normalized date and its checklist
  id; a submission that fails (the request raises, or the status is 4xx or 5xx) is logged
  and marks nothing, and the driver goes on with the next payload. Every attempt,
  successful or not, ends with a pause of 0.75. Of three payloads whose second fails, the
  first and the third are in the ledger.
\<close>

theorem upload_records_isolates_failures:
  "posts (snd (upload_records ts post conn)) = map fst ts
   \<and> snd (upload_records ts post conn) =
       concat (map (\<lambda>i. attempt (ts ! i) (post i)) [0..<length ts])
   \<and> sleeps (snd (upload_records ts post conn)) = replicate (length ts) (3 / 4)
   \<and> marks (snd (upload_records ts post conn)) =
       map (\<lambda>i. (fst (snd (ts ! i)), p_date (fst (ts ! i)), snd (snd (ts ! i))))
         (filter (\<lambda>i. post_ok (post i)) [0..<length ts])
   \<and> fst (upload_records ts post conn) = mark_all conn (marks (snd (upload_records ts post conn)))
   \<and> (\<forall>code. post_ok (Status code) = (code < 400 \<or> 600 \<le> code))
   \<and> (\<forall>outcome. success_2xx outcome \<longrightarrow> post_ok outcome)
   \<and> (\<forall>code. 400 \<le> code \<and> code < 600 \<longrightarrow> \<not> post_ok (Status code))
   \<and> (\<forall>e. \<not> post_ok (Raises e))"
proof -
  note upload_records_posts [of ts post conn]
  moreover note upload_records_events [of ts post conn]
  moreover note upload_records_sleeps [of ts post conn]
  moreover note upload_records_marks [of ts post conn]
  moreover note upload_records_ledger [of ts post conn]
  ultimately show ?thesis
    using post_ok_Status success_2xx_post_ok post_ok_error_status post_ok_Raises by blast
qed

theorem upload_records_isolates_failures_witness:
  "success_2xx (ex_post 0) \<and> ex_post 1 = Status 500 \<and> success_2xx (ex_post 2)
   \<and> post_ok (ex_post 0) \<and> \<not> post_ok (ex_post 1) \<and> post_ok (ex_post 2)
   \<and> posts (snd (upload_records ex_batch ex_post [])) = map fst ex_batch
   \<and> sleeps (snd (upload_records ex_batch ex_post [])) = [3 / 4, 3 / 4, 3 / 4]
   \<and> marks (snd (upload_records ex_batch ex_post [])) =
       [(''r1'', ''2024-05-11T12:34:56Z'', ''c9''), (''r3'', ''2024-05-13T12:34:56Z'', ''c9'')]
   \<and> fst (upload_records ex_batch ex_post []) =
       [\<lparr>record_id = ''r1'', action_date = ''2024-05-11T12:34:56Z'', checklist_id = ''c9''\<rparr>,
        \<lparr>record_id = ''r3'', action_date = ''2024-05-13T12:34:56Z'', checklist_id = ''c9''\<rparr>]"
proof -
  have o: "success_2xx (ex_post 0)" "ex_post 1 = Status 500" "success_2xx (ex_post 2)"
    by (simp_all add: ex_post_def success_2xx_def)
  from upload_records_isolates_failures [of ex_batch ex_post "[]"] o
  have ok: "post_ok (ex_post 0)" "\<not> post_ok (ex_post 1)" "post_ok (ex_post 2)"
    by simp_all
  from upload_records_isolates_failures [of ex_batch ex_post "[]"] o ok show ?thesis
    by (simp add: ex_batch_def ex_post_def ex_payload_def post_ok_def raise_for_status_def
        mark_all_def mark_imported_def attempt_def)
qed

section \<open>Properties of a run: idempotent import\<close>

lemma get_imported_ids_mark_all:
  "get_imported_ids (mark_all conn ms) = get_imported_ids conn \<union> set (map fst ms)"
proof (induction ms arbitrary: conn)
  case Nil
  show ?case by (simp add: mark_all_def)
next
  case (Cons m ms)
  have "mark_all conn (m # ms) = mark_all (mark_imported conn (fst m) (fst (snd m)) (snd (snd m))) ms"
    by (simp add: mark_all_def)
  then show ?case
    by (simp add: Cons.IH get_imported_ids_mark_imported)
qed

lemma entries_for_mark_imported_known:
  "rid \<in> get_imported_ids conn \<Longrightarrow>
   entries_for (mark_imported conn s d c) rid = entries_for conn rid"
  by (auto simp: mark_imported_def entries_for_def get_imported_ids_def)

lemma entries_for_mark_all_known:
  "rid \<in> get_imported_ids conn \<Longrightarrow> entries_for (mark_all conn ms) rid = entries_for conn rid"
proof (induction ms arbitrary: conn)
  case Nil
  show ?case by (simp add: mark_all_def)
next
  case (Cons m ms)
  have step: "mark_all conn (m # ms) = mark_all (mark_imported conn (fst m) (fst (snd m)) (snd (snd m))) ms"
    by (simp add: mark_all_def)
  from Cons.prems have "rid \<in> get_imported_ids (mark_imported conn (fst m) (fst (snd m)) (snd (snd m)))"
    by (simp add: get_imported_ids_mark_imported)
  then show ?case
    using Cons.prems by (simp add: step Cons.IH entries_for_mark_imported_known)
qed

lemma transform_record_provenance:
  "transform_record hm cm fb m r = Inr (p, src, chk) \<Longrightarrow>
   src = source_id r \<and> chk = py_str (p_checklist_id p)"
  by (auto simp: transform_record_def source_id_def split: sum.splits)

lemma transform_loop_ids:
  "transform_loop hm cm fb m rs = Inr out \<Longrightarrow> map (\<lambda>t. fst (snd t)) out = map source_id rs"
proof (induction rs arbitrary: out)
  case Nil
  then show ?case by simp
next
  case (Cons r rs)
  from Cons.prems obtain t out' where
    t: "transform_record hm cm fb m r = Inr t" and
    out': "transform_loop hm cm fb m rs = Inr out'" and out: "out = t # out'"
    by (auto split: sum.splits)
  from t have "fst (snd t) = source_id r"
    by (cases t) (auto dest: transform_record_provenance)
  with Cons.IH [OF out'] out show ?case by simp
qed

lemma transform_records_ids:
  "transform_records rs bh bc m = Inr out \<Longrightarrow> map (\<lambda>t. fst (snd t)) out = map source_id rs"
  unfolding transform_records_def
  by (auto split: sum.splits dest: transform_loop_ids)

lemma upload_records_step_marks:
  "\<exists>conn'. marks (snd (upload_records (t # ts) post conn)) =
     marks (attempt t (post 0)) @ marks (snd (upload_records ts (\<lambda>i. post (Suc i)) conn'))"
  by (auto simp: upload_records_step marks_append simp del: upload_records.simps)

lemma upload_marks_subset:
  "set (map fst (marks (snd (upload_records ts post conn)))) \<subseteq> set (map (\<lambda>t. fst (snd t)) ts)"
proof (induction ts arbitrary: post conn)
  case Nil
  show ?case by simp
next
  case (Cons t ts)
  obtain conn' where step: "marks (snd (upload_records (t # ts) post conn)) =
     marks (attempt t (post 0)) @ marks (snd (upload_records ts (\<lambda>i. post (Suc i)) conn'))"
    using upload_records_step_marks by blast
  have "set (map fst (marks (attempt t (post 0)))) \<subseteq> {fst (snd t)}"
    by (auto simp: marks_attempt)
  with Cons.IH [of "\<lambda>i. post (Suc i)" conn'] show ?case
    unfolding step by auto
qed

lemma upload_marks_distinct:
  "distinct (map (\<lambda>t. fst (snd t)) ts) \<Longrightarrow>
   distinct (map fst (marks (snd (upload_records ts post conn))))"
proof (induction ts arbitrary: post conn)
  case Nil
  show ?case by simp
next
  case (Cons t ts)
  obtain conn' where step: "marks (snd (upload_records (t # ts) post conn)) =
     marks (attempt t (post 0)) @ marks (snd (upload_records ts (\<lambda>i. post (Suc i)) conn'))"
    using upload_records_step_marks by blast
  from Cons.prems have d: "distinct (map (\<lambda>t. fst (snd t)) ts)"
    and fresh: "fst (snd t) \<notin> set (map (\<lambda>t. fst (snd t)) ts)" by auto
  from fresh upload_marks_subset [of ts "\<lambda>i. post (Suc i)" conn']
  have "fst (snd t) \<notin> set (map fst (marks (snd (upload_records ts (\<lambda>i. post (Suc i)) conn'))))"
    by blast
  with Cons.IH [OF d, of "\<lambda>i. post (Suc i)" conn'] show ?case
    unfolding step by (auto simp: marks_attempt)
qed

lemma load_json_file_io_quiet:
  "posts (snd (load_json_file_io path f)) = [] \<and> marks (snd (load_json_file_io path f)) = []"
  by (cases f) (simp_all add: load_json_file_io_def)

lemma load_mappings_io_quiet:
  "posts (snd (load_mappings_io path f)) = [] \<and> marks (snd (load_mappings_io path f)) = []"
  by (simp add: load_mappings_io_def load_json_file_io_quiet)

lemma import_records_cases:
  assumes "run = import_records w a n conn recs bc bh"
  shows "(conn_after run = conn \<and> marks (events run) = [] \<and> posts (events run) = [])
    \<or> (\<exists>m out. load_mappings (mappings_at w (mappings_file a)) = Inr m
          \<and> transform_records (records_to_import conn recs) bh bc m = Inr out
          \<and> conn_after run = fst (upload_records out (beep_store w) conn)
          \<and> marks (events run) = marks (snd (upload_records out (beep_store w) conn))
          \<and> posts (events run) = map fst out)"
proof -
  note q = load_mappings_io_quiet [of "mappings_file a" "mappings_at w (mappings_file a)"]
  have l: "fst (load_mappings_io (mappings_file a) (mappings_at w (mappings_file a)))
      = load_mappings (mappings_at w (mappings_file a))"
    by (simp add: load_mappings_io_def)
  show ?thesis
    unfolding assms import_records_def Let_def l
    using q
    by (auto simp: posts_append marks_append upload_records_posts split: sum.splits)
qed

lemma records_to_import_ids:
  "map source_id (records_to_import conn recs) =
     filter (\<lambda>s. s \<notin> get_imported_ids conn) (map source_id recs)"
  by (simp add: records_to_import_def source_id_def filter_map comp_def)

lemma import_records_marks:
  assumes "run = import_records w a n conn recs bc bh"
  shows "set (map fst (marks (events run))) \<subseteq> set (map source_id recs) - get_imported_ids conn"
    and "distinct (map source_id recs) \<Longrightarrow> distinct (map fst (marks (events run)))"
    and "get_imported_ids (conn_after run) = get_imported_ids conn \<union> set (map fst (marks (events run)))"
proof -
  from import_records_cases [OF assms]
  consider (quiet) "conn_after run = conn" "marks (events run) = []"
    | (uploaded) m out where
        "transform_records (records_to_import conn recs) bh bc m = Inr out"
        "conn_after run = fst (upload_records out (beep_store w) conn)"
        "marks (events run) = marks (snd (upload_records out (beep_store w) conn))"
    by blast
  then have "set (map fst (marks (events run))) \<subseteq> set (map source_id recs) - get_imported_ids conn
    \<and> (distinct (map source_id recs) \<longrightarrow> distinct (map fst (marks (events run))))
    \<and> get_imported_ids (conn_after run) = get_imported_ids conn \<union> set (map fst (marks (events run)))"
  proof cases
    case quiet
    then show ?thesis by simp
  next
    case uploaded
    note ids = transform_records_ids [OF uploaded(1)]
    have sub: "set (map fst (marks (events run))) \<subseteq> set (map source_id recs) - get_imported_ids conn"
      using upload_marks_subset [of out "beep_store w" conn]
      unfolding uploaded(3) ids records_to_import_ids by auto
    have dist: "distinct (map fst (marks (events run)))" if "distinct (map source_id recs)"
      unfolding uploaded(3)
      by (rule upload_marks_distinct) (simp add: ids records_to_import_ids that)
    have "get_imported_ids (conn_after run) = get_imported_ids conn \<union> set (map fst (marks (events run)))"
      unfolding uploaded(2) uploaded(3) upload_records_ledger [of out "beep_store w" conn]
      by (simp add: get_imported_ids_mark_all)
    with sub dist show ?thesis by blast
  qed
  then show "set (map fst (marks (events run))) \<subseteq> set (map source_id recs) - get_imported_ids conn"
    and "distinct (map source_id recs) \<Longrightarrow> distinct (map fst (marks (events run)))"
    and "get_imported_ids (conn_after run) = get_imported_ids conn \<union> set (map fst (marks (events run)))"
    by blast+
qed

text \<open>
  Claim C1. For a fixed source dataset and any initial ledger, two runs of the pipeline
  in sequence (filter by the ledger's ids, transform, upload, mark on success) upload
  each record at most once: every id uploaded and marked in the first run is in the
  ledger afterwards; a record whose id is in the ledger is not eligible in the second
  run; the requests of the second run are the payloads of its eligible records; no id
  marked in the second run was in the ledger after the first; and when the ids of the
  dataset are distinct, no id is marked twice over the two runs.
\<close>

theorem import_twice_uploads_once:
  assumes "run1 = import_records w1 a1 n1 conn recs bc1 bh1"
    and "run2 = import_records w2 a2 n2 (conn_after run1) recs bc2 bh2"
  shows "set (map fst (marks (events run1))) \<subseteq> get_imported_ids (conn_after run1)
    \<and> get_imported_ids conn \<subseteq> get_imported_ids (conn_after run1)
    \<and> (\<forall>r \<in> set recs. source_id r \<in> get_imported_ids (conn_after run1)
          \<longrightarrow> r \<notin> set (records_to_import (conn_after run1) recs))
    \<and> (posts (events run2) = []
        \<or> (\<exists>m out. transform_records (records_to_import (conn_after run1) recs) bh2 bc2 m = Inr out
              \<and> posts (events run2) = map fst out
              \<and> map (\<lambda>t. fst (snd t)) out = map source_id (records_to_import (conn_after run1) recs)))
    \<and> set (map fst (marks (events run2))) \<inter> get_imported_ids (conn_after run1) = {}
    \<and> (distinct (map source_id recs)
          \<longrightarrow> distinct (map fst (marks (events run1)) @ map fst (marks (events run2))))"
proof -
  note m1 = import_records_marks [OF assms(1)]
  note m2 = import_records_marks [OF assms(2)]
  have a: "set (map fst (marks (events run1))) \<subseteq> get_imported_ids (conn_after run1)"
    and b: "get_imported_ids conn \<subseteq> get_imported_ids (conn_after run1)"
    using m1(3) by auto
  have c: "\<forall>r \<in> set recs. source_id r \<in> get_imported_ids (conn_after run1)
          \<longrightarrow> r \<notin> set (records_to_import (conn_after run1) recs)"
    by (simp add: records_to_import_def source_id_def)
  have d: "posts (events run2) = []
        \<or> (\<exists>m out. transform_records (records_to_import (conn_after run1) recs) bh2 bc2 m = Inr out
              \<and> posts (events run2) = map fst out
              \<and> map (\<lambda>t. fst (snd t)) out = map source_id (records_to_import (conn_after run1) recs))"
    using import_records_cases [OF assms(2)] by (auto dest: transform_records_ids)
  have e: "set (map fst (marks (events run2))) \<inter> get_imported_ids (conn_after run1) = {}"
    using m2(1) by auto
  have f: "distinct (map fst (marks (events run1)) @ map fst (marks (events run2)))"
    if "distinct (map source_id recs)"
    using m1(2) [OF that] m2(2) [OF that] a e by auto
  from a b c d e f show ?thesis by blast
qed

lemmas date_defs = strptime_def directive_def lower_def digits_field_def is_digit_def
  re_Y_def re_m_def re_d_def re_H_def re_M_def re_S_def re_f_def num_def digit_val_def
  days_in_month_def is_leap_def strftime_def zero_pad_def digit_char_def

lemmas transform_defs = transform_records_def transform_record_def name_id_map_def
  build_items_def hive_ids_of_def resolve_checklist_def reminder_of_def table_get_def
  table_has_def get_or_def py_or_def dict_get_def dict_get_default_def

lemma load_ex: "load_mappings (Parsed ex_mappings) = Inr ex_loaded"
  by (simp add: load_mappings_def load_json_file_def ex_mappings_def setdefault_def ex_loaded_def)

lemma ex_transformed:
  "transform_records ex_dataset [] [] ex_loaded =
     Inr [ex_out ''r1'' ''2024-05-11T12:34:56Z'', ex_out ''r2'' ''2024-05-12T12:34:56Z'',
          ex_out ''r3'' ''2024-05-13T12:34:56Z'']"
  by (simp add: ex_dataset_def ex_source_def ex_loaded_def ex_out_def transform_defs date_defs)

lemma ex_run1:
  "import_records ex_world ex_args 1 [] ex_dataset [] [] =
     \<lparr>status = Exit_ok,
      conn_after =
        [\<lparr>record_id = ''r1'', action_date = ''2024-05-11T12:34:56Z'', checklist_id = ''None''\<rparr>,
         \<lparr>record_id = ''r3'', action_date = ''2024-05-13T12:34:56Z'', checklist_id = ''None''\<rparr>],
      events =
        [Log (Loaded_file ''data/mappings.json''), Open_file ''data/mappings.json'',
         Log Uploading_records, Beep_login]
        @ attempt (ex_out ''r1'' ''2024-05-11T12:34:56Z'') (Status 201)
        @ attempt (ex_out ''r2'' ''2024-05-12T12:34:56Z'') (Status 500)
        @ attempt (ex_out ''r3'' ''2024-05-13T12:34:56Z'') (Status 201)
        @ [Log (Script_completed 3 3 3)]\<rparr>"
proof -
  have elig: "records_to_import [] ex_dataset = ex_dataset"
    by (simp add: records_to_import_def get_imported_ids_def)
  have len: "length ex_dataset = 3"
    by (simp add: ex_dataset_def)
  show ?thesis
    unfolding import_records_def elig
    by (simp add: ex_world_def ex_args_def load_mappings_io_def load_json_file_io_def load_ex
        ex_transformed ex_out_def ex_post_def post_ok_def raise_for_status_def mark_imported_def
        attempt_def len Let_def)
qed

lemma ex_eligible2:
  "records_to_import
     [\<lparr>record_id = ''r1'', action_date = ''2024-05-11T12:34:56Z'', checklist_id = ''None''\<rparr>,
      \<lparr>record_id = ''r3'', action_date = ''2024-05-13T12:34:56Z'', checklist_id = ''None''\<rparr>]
     ex_dataset = [ex_source ''r2'' ''2024-05-12T12:34:56.789012Z'']"
  by (simp add: records_to_import_def get_imported_ids_def ex_dataset_def ex_source_def
      dict_get_def dict_get_default_def)

lemma ex_transformed2:
  "transform_records [ex_source ''r2'' ''2024-05-12T12:34:56.789012Z''] [] [] ex_loaded =
     Inr [ex_out ''r2'' ''2024-05-12T12:34:56Z'']"
  by (simp add: ex_source_def ex_loaded_def ex_out_def transform_defs date_defs)

lemma ex_run2:
  "import_records ex_world2 ex_args 1
     [\<lparr>record_id = ''r1'', action_date = ''2024-05-11T12:34:56Z'', checklist_id = ''None''\<rparr>,
      \<lparr>record_id = ''r3'', action_date = ''2024-05-13T12:34:56Z'', checklist_id = ''None''\<rparr>]
     ex_dataset [] [] =
     \<lparr>status = Exit_ok,
      conn_after =
        [\<lparr>record_id = ''r1'', action_date = ''2024-05-11T12:34:56Z'', checklist_id = ''None''\<rparr>,
         \<lparr>record_id = ''r3'', action_date = ''2024-05-13T12:34:56Z'', checklist_id = ''None''\<rparr>,
         \<lparr>record_id = ''r2'', action_date = ''2024-05-12T12:34:56Z'', checklist_id = ''None''\<rparr>],
      events =
        [Log (Loaded_file ''data/mappings.json''), Open_file ''data/mappings.json'',
         Log Uploading_records, Beep_login]
        @ attempt (ex_out ''r2'' ''2024-05-12T12:34:56Z'') (Status 201)
        @ [Log (Script_completed 3 1 1)]\<rparr>"
proof -
  have len: "length ex_dataset = 3"
    by (simp add: ex_dataset_def)
  show ?thesis
    unfolding import_records_def ex_eligible2
    by (simp add: ex_world2_def ex_world_def ex_args_def load_mappings_io_def load_json_file_io_def
        load_ex ex_transformed2 ex_out_def post_ok_def raise_for_status_def mark_imported_def
        attempt_def len Let_def)
qed

lemma ex_dataset_ids: "map source_id ex_dataset = [''r1'', ''r2'', ''r3'']"
  by (simp add: ex_dataset_def ex_source_def source_id_def dict_get_def dict_get_default_def)

theorem import_twice_uploads_once_witness:
  "distinct (map source_id ex_dataset)
   \<and> map fst (marks (events (import_records ex_world ex_args 1 [] ex_dataset [] []))) = [''r1'', ''r3'']
   \<and> get_imported_ids (conn_after (import_records ex_world ex_args 1 [] ex_dataset [] []))
       = {''r1'', ''r3''}
   \<and> records_to_import (conn_after (import_records ex_world ex_args 1 [] ex_dataset [] [])) ex_dataset
       = [ex_source ''r2'' ''2024-05-12T12:34:56.789012Z'']
   \<and> posts (events (import_records ex_world2 ex_args 1
         (conn_after (import_records ex_world ex_args 1 [] ex_dataset [] [])) ex_dataset [] []))
       = [fst (ex_out ''r2'' ''2024-05-12T12:34:56Z'')]
   \<and> map fst (marks (events (import_records ex_world2 ex_args 1
         (conn_after (import_records ex_world ex_args 1 [] ex_dataset [] [])) ex_dataset [] [])))
       = [''r2'']
   \<and> distinct
        (map fst (marks (events (import_records ex_world ex_args 1 [] ex_dataset [] [])))
         @ map fst (marks (events (import_records ex_world2 ex_args 1
             (conn_after (import_records ex_world ex_args 1 [] ex_dataset [] [])) ex_dataset [] []))))"
proof -
  have d: "distinct (map source_id ex_dataset)"
    by (simp add: ex_dataset_ids)
  have m1: "map fst (marks (events (import_records ex_world ex_args 1 [] ex_dataset [] []))) = [''r1'', ''r3'']"
    unfolding ex_run1 by (simp add: attempt_def ex_out_def post_ok_def raise_for_status_def)
  have c1: "conn_after (import_records ex_world ex_args 1 [] ex_dataset [] []) =
        [\<lparr>record_id = ''r1'', action_date = ''2024-05-11T12:34:56Z'', checklist_id = ''None''\<rparr>,
         \<lparr>record_id = ''r3'', action_date = ''2024-05-13T12:34:56Z'', checklist_id = ''None''\<rparr>]"
    unfolding ex_run1 by simp
  have m2: "map fst (marks (events (import_records ex_world2 ex_args 1
         (conn_after (import_records ex_world ex_args 1 [] ex_dataset [] [])) ex_dataset [] [])))
       = [''r2'']"
    unfolding c1 ex_run2 by (simp add: attempt_def ex_out_def post_ok_def raise_for_status_def)
  have p2: "posts (events (import_records ex_world2 ex_args 1
         (conn_after (import_records ex_world ex_args 1 [] ex_dataset [] [])) ex_dataset [] []))
       = [fst (ex_out ''r2'' ''2024-05-12T12:34:56Z'')]"
    unfolding c1 ex_run2 by (simp add: attempt_def ex_out_def post_ok_def raise_for_status_def)
  have e2: "records_to_import (conn_after (import_records ex_world ex_args 1 [] ex_dataset [] [])) ex_dataset
       = [ex_source ''r2'' ''2024-05-12T12:34:56.789012Z'']"
    unfolding c1 by (rule ex_eligible2)
  have i1: "get_imported_ids (conn_after (import_records ex_world ex_args 1 [] ex_dataset [] []))
       = {''r1'', ''r3''}"
    unfolding c1 by (simp add: get_imported_ids_def)
  from import_twice_uploads_once [OF refl refl, of ex_world ex_args 1 "[]" ex_dataset "[]" "[]"
      ex_world2 ex_args 1 "[]" "[]"] d
  have "distinct
        (map fst (marks (events (import_records ex_world ex_args 1 [] ex_dataset [] [])))
         @ map fst (marks (events (import_records ex_world2 ex_args 1
             (conn_after (import_records ex_world ex_args 1 [] ex_dataset [] [])) ex_dataset [] []))))"
    by blast
  with d m1 i1 e2 p2 m2 show ?thesis by blast
qed

text \<open>
  Claim C10. The provenance of a transformed record is made of strings: the source id
  is \<^verbatim>\<open>str\<close> of the record's id and the checklist id is \<^verbatim>\<open>str\<close> of the resolved
  checklist id. When the resolution gives \<^verbatim>\<open>None\<close>, the payload carries \<^verbatim>\<open>None\<close>, the
  provenance carries the text \<^verbatim>\<open>None\<close>, and a successful upload of the record writes
  that text into the ledger as the checklist id.
\<close>

theorem checklist_none_is_stringified:
  assumes "transform_record hm cm fb m r = Inr (p, src, chk)"
  shows "src = py_str (dict_get r ''id'') \<and> chk = py_str (p_checklist_id p)
    \<and> (p_checklist_id p = JNull \<longrightarrow>
         chk = ''None''
         \<and> (post_ok (post 0) \<longrightarrow>
              Db_insert_or_ignore src (p_date p) ''None''
                \<in> set (snd (upload_records ((p, src, chk) # rest) post conn))
              \<and> (src \<notin> get_imported_ids conn \<longrightarrow>
                   entries_for (fst (upload_records ((p, src, chk) # rest) post conn)) src =
                     [\<lparr>record_id = src, action_date = p_date p, checklist_id = ''None''\<rparr>])))"
proof -
  from assms have prov: "src = py_str (dict_get r ''id'')" "chk = py_str (p_checklist_id p)"
    by (auto dest: transform_record_provenance simp: source_id_def)
  have none: "chk = ''None''" if "p_checklist_id p = JNull"
    using prov(2) that by simp
  have ev: "Db_insert_or_ignore src (p_date p) ''None''
        \<in> set (snd (upload_records ((p, src, chk) # rest) post conn))"
    if "p_checklist_id p = JNull" "post_ok (post 0)"
    using that none by (simp add: Let_def)
  have row: "entries_for (fst (upload_records ((p, src, chk) # rest) post conn)) src =
       [\<lparr>record_id = src, action_date = p_date p, checklist_id = ''None''\<rparr>]"
    if "p_checklist_id p = JNull" "post_ok (post 0)" "src \<notin> get_imported_ids conn"
  proof -
    let ?conn' = "mark_imported conn src (p_date p) ''None''"
    have known: "src \<in> get_imported_ids ?conn'"
      by (simp add: get_imported_ids_mark_imported)
    have "fst (upload_records ((p, src, chk) # rest) post conn) =
        fst (upload_records rest (\<lambda>i. post (Suc i)) ?conn')"
      using that(2) none [OF that(1)] by (simp add: Let_def)
    also have "\<dots> = mark_all ?conn' (marks (snd (upload_records rest (\<lambda>i. post (Suc i)) ?conn')))"
      by (rule upload_records_ledger)
    finally show ?thesis
      using entries_for_mark_all_known [OF known] entries_for_mark_imported_fresh [OF that(3)]
      by simp
  qed
  from prov none ev row show ?thesis by blast
qed

lemma ex_transform_record:
  "transform_record [] [] ''TBD'' ex_loaded (ex_source ''r1'' ''2024-05-11T12:34:56.789012Z'')
     = Inr (ex_out ''r1'' ''2024-05-11T12:34:56Z'')"
  by (simp add: ex_source_def ex_loaded_def ex_out_def transform_defs date_defs)

theorem checklist_none_is_stringified_witness:
  "transform_record [] [] ''TBD'' ex_loaded (ex_source ''r1'' ''2024-05-11T12:34:56.789012Z'')
     = Inr (fst (ex_out ''r1'' ''2024-05-11T12:34:56Z''), ''r1'', ''None'')
   \<and> p_checklist_id (fst (ex_out ''r1'' ''2024-05-11T12:34:56Z'')) = JNull
   \<and> post_ok (ex_post 0) \<and> ''r1'' \<notin> get_imported_ids []
   \<and> entries_for
        (fst (upload_records [(fst (ex_out ''r1'' ''2024-05-11T12:34:56Z''), ''r1'', ''None'')] ex_post []))
        ''r1''
      = [\<lparr>record_id = ''r1'', action_date = ''2024-05-11T12:34:56Z'', checklist_id = ''None''\<rparr>]"
proof -
  have t: "transform_record [] [] ''TBD'' ex_loaded (ex_source ''r1'' ''2024-05-11T12:34:56.789012Z'')
     = Inr (fst (ex_out ''r1'' ''2024-05-11T12:34:56Z''), ''r1'', ''None'')"
    by (simp add: ex_transform_record ex_out_def)
  have n: "p_checklist_id (fst (ex_out ''r1'' ''2024-05-11T12:34:56Z'')) = JNull"
    by (simp add: ex_out_def)
  have ok: "post_ok (ex_post 0)"
    by (simp add: ex_post_def post_ok_def raise_for_status_def)
  have fresh: "''r1'' \<notin> get_imported_ids []"
    by (simp add: get_imported_ids_def)
  from checklist_none_is_stringified [OF t, of ex_post "[]" "[]"] n ok fresh
  show ?thesis using t by (simp add: ex_out_def)
qed

section \<open>Properties of the transform: order and item codes\<close>

lemma keys_dict_set: "dict_keys (dict_set k v d) = insert k (dict_keys d)"
  by (simp add: dict_keys_def dict_set_def dom_update)

lemma keys_dict_update: "dict_keys (dict_update d e) = dict_keys d \<union> set (map fst e)"
  unfolding dict_update_def
proof (induction e arbitrary: d)
  case Nil
  show ?case by simp
next
  case (Cons kv e)
  show ?case by (cases kv) (simp add: Cons.IH keys_dict_set)
qed

lemma keys_apply_field_map:
  "dict_keys (apply_field_map r fm acc) \<subseteq> dict_keys acc \<union> set (map fst fm)"
proof (induction r fm acc rule: apply_field_map.induct)
  case (1 r acc)
  show ?case by simp
next
  case (2 r beep_item_id ht_field rest acc)
  let ?acc' = "if map_of r ht_field \<noteq> None \<and> dict_get r ht_field \<noteq> JNull
        then dict_set beep_item_id (dict_get r ht_field) acc else acc"
  have "dict_keys ?acc' \<subseteq> insert beep_item_id (dict_keys acc)"
    by (simp add: keys_dict_set subset_insertI)
  with "2.IH" have "dict_keys (apply_field_map r rest ?acc')
      \<subseteq> insert beep_item_id (dict_keys acc) \<union> set (map fst rest)"
    by blast
  then show ?case by simp
qed

lemma keys_apply_enums:
  "apply_enums r en acc = Inr acc' \<Longrightarrow>
   dict_keys acc' \<subseteq>
     dict_keys acc \<union> set (concat (map (\<lambda>fv. concat (map (\<lambda>vp. map fst (snd vp)) (snd fv))) en))"
proof (induction r en acc arbitrary: acc' rule: apply_enums.induct)
  case (1 r acc)
  then show ?case by simp
next
  case (2 r ht_field value_map rest acc)
  let ?rest = "set (concat (map (\<lambda>fv. concat (map (\<lambda>vp. map fst (snd vp)) (snd fv))) rest))"
  let ?here = "set (concat (map (\<lambda>vp. map fst (snd vp)) value_map))"
  have goal: "set (concat (map (\<lambda>fv. concat (map (\<lambda>vp. map fst (snd vp)) (snd fv)))
      ((ht_field, value_map) # rest))) = ?here \<union> ?rest"
    by simp
  show ?case
  proof (cases "str_dict_find (dict_get r ht_field) value_map")
    case (Inl e)
    with "2.prems" show ?thesis by simp
  next
    case (Inr found)
    show ?thesis
    proof (cases found)
      case None
      with Inr "2.prems" have "apply_enums r rest acc = Inr acc'" by simp
      from "2.IH"(1) [OF Inr None this] show ?thesis
        unfolding goal by blast
    next
      case (Some pairs)
      with Inr have "map_of value_map (py_str (dict_get r ht_field)) = Some pairs"
        by (cases "dict_get r ht_field") auto
      then have "(py_str (dict_get r ht_field), pairs) \<in> set value_map"
        by (rule map_of_SomeD)
      then have here: "set (map fst pairs) \<subseteq> ?here"
        by force
      from Some Inr "2.prems" have "apply_enums r rest (dict_update acc pairs) = Inr acc'" by simp
      from "2.IH"(2) [OF Inr Some this] here show ?thesis
        unfolding goal keys_dict_update by blast
    qed
  qed
qed

lemma keys_apply_stage_flags:
  "apply_stage_flags stages flags acc = Inr acc' \<Longrightarrow>
   dict_keys acc' \<subseteq> dict_keys acc \<union> set (map (\<lambda>lc. py_str (snd lc)) flags)"
proof (induction stages flags acc arbitrary: acc' rule: apply_stage_flags.induct)
  case (1 stages acc)
  then show ?case by simp
next
  case (2 stages label beep_item_id rest acc)
  from "2.prems" obtain b where b: "contains_str label stages = Inr b"
    and rest: "apply_stage_flags stages rest
        (if b then dict_set (py_str beep_item_id) (JBool True) acc else acc) = Inr acc'"
    by (auto split: sum.splits)
  have "dict_keys (if b then dict_set (py_str beep_item_id) (JBool True) acc else acc)
      \<subseteq> insert (py_str beep_item_id) (dict_keys acc)"
    by (simp add: keys_dict_set subset_insertI)
  with "2.IH" [OF b rest] have "dict_keys acc'
      \<subseteq> insert (py_str beep_item_id) (dict_keys acc) \<union> set (map (\<lambda>lc. py_str (snd lc)) rest)"
    by blast
  then show ?case by simp
qed

lemma keys_apply_feeding_rule:
  assumes "apply_feeding_rule food_type food_other rule acc = Inr acc'"
  shows "dict_keys acc' \<subseteq> dict_keys acc \<union> set (map fst (get_or (rule_set rule) []))"
proof -
  let ?pairs = "get_or (rule_set rule) []"
  have one: "dict_keys (if c then dict_update d ?pairs else d) \<subseteq> dict_keys d \<union> set (map fst ?pairs)"
    for c d by (simp add: keys_dict_update)
  from assms obtain c1 c2 c3 where
    "acc' = (if c3 then dict_update (if c2 then dict_update (if c1 then dict_update acc ?pairs else acc) ?pairs
                else (if c1 then dict_update acc ?pairs else acc)) ?pairs
             else (if c2 then dict_update (if c1 then dict_update acc ?pairs else acc) ?pairs
                else (if c1 then dict_update acc ?pairs else acc)))"
    unfolding apply_feeding_rule_def Let_def by (auto split: sum.splits)
  then show ?thesis
    using one [of c1 acc] one [of c2 "if c1 then dict_update acc ?pairs else acc"]
      one [of c3 "if c2 then dict_update (if c1 then dict_update acc ?pairs else acc) ?pairs
                else (if c1 then dict_update acc ?pairs else acc)"]
    by blast
qed

lemma keys_apply_feeding_rules:
  "apply_feeding_rules food_type food_other rules acc = Inr acc' \<Longrightarrow>
   dict_keys acc' \<subseteq>
     dict_keys acc \<union> set (concat (map (\<lambda>rule. map fst (get_or (rule_set rule) [])) rules))"
proof (induction rules arbitrary: acc)
  case Nil
  then show ?case by simp
next
  case (Cons rule rules)
  from Cons.prems obtain acc1 where
    one: "apply_feeding_rule food_type food_other rule acc = Inr acc1" and
    rest: "apply_feeding_rules food_type food_other rules acc1 = Inr acc'"
    by (auto split: sum.splits)
  have "set (concat (map (\<lambda>rule. map fst (get_or (rule_set rule) [])) (rule # rules))) =
      set (map fst (get_or (rule_set rule) []))
      \<union> set (concat (map (\<lambda>rule. map fst (get_or (rule_set rule) [])) rules))"
    by simp
  with keys_apply_feeding_rule [OF one] Cons.IH [OF rest] show ?case by blast
qed

lemma keys_build_items:
  assumes "build_items r m = Inr acc"
  shows "dict_keys acc \<subseteq> set (ruleset_codes m)"
proof -
  from assms obtain acc2 acc3 stages food_type food_other where
    e: "apply_enums r (get_or (enums m) []) (apply_field_map r (get_or (field_map m) []) []) = Inr acc2"
    and s: "apply_stage_flags stages
        (get_or (cfg_flags (get_or (stages_flags m) \<lparr>cfg_field = None, cfg_flags = None\<rparr>)) []) acc2
        = Inr acc3"
    and f: "apply_feeding_rules food_type food_other (get_or (feeding_rules m) []) acc3 = Inr acc"
    unfolding build_items_def Let_def by (auto split: sum.splits)
  have empty: "dict_keys [] = {}" by (simp add: dict_keys_def)
  have codes: "set (ruleset_codes m) =
      set (field_map_codes m) \<union> set (enum_codes m) \<union> set (stage_codes m) \<union> set (feeding_codes m)"
    by (auto simp: ruleset_codes_def)
  from keys_apply_field_map [of r "get_or (field_map m) []" "[]"]
    keys_apply_enums [OF e] keys_apply_stage_flags [OF s] keys_apply_feeding_rules [OF f]
  show ?thesis
    unfolding codes field_map_codes_def enum_codes_def stage_codes_def feeding_codes_def empty
    by blast
qed

lemma transform_record_items:
  "transform_record hm cm fb m r = Inr t \<Longrightarrow> build_items r m = Inr (p_items (fst t))"
  by (auto simp: transform_record_def split: sum.splits)

lemma transform_loop_pointwise:
  "transform_loop hm cm fb m rs = Inr out \<Longrightarrow>
   list_all2 (\<lambda>r t. transform_record hm cm fb m r = Inr t) rs out"
proof (induction rs arbitrary: out)
  case Nil
  then show ?case by simp
next
  case (Cons r rs)
  from Cons.prems obtain t out' where
    "transform_record hm cm fb m r = Inr t" "transform_loop hm cm fb m rs = Inr out'" "out = t # out'"
    by (auto split: sum.splits)
  with Cons.IH show ?case by simp
qed

lemma transform_records_pointwise:
  assumes "transform_records records bh bc m = Inr out"
  shows "\<exists>hm cm. name_id_map bh ''hives'' = Inr hm \<and> name_id_map bc ''checklists'' = Inr cm
      \<and> list_all2 (\<lambda>r t. transform_record hm cm (get_or (checklist_fallback m) ''TBD'') m r = Inr t)
           records out"
  using assms unfolding transform_records_def
  by (auto split: sum.splits dest: transform_loop_pointwise)

text \<open>
  Claim C9, as stated, fails: it ranges over every ruleset, and a ruleset whose
  \<^verbatim>\<open>field_map\<close> names the item \<^verbatim>\<open>1499\<close> puts that item into the payload.
\<close>

theorem legacy_item_counterexample:
  "transform_records [ex_source ''r1'' ''2024-05-11T12:34:56.789012Z''] [] [] legacy_mappings =
     Inr [(\<lparr>p_date = ''2024-05-11T12:34:56Z'', p_checklist_id = JNull,
            p_reminder = JStr ''Missing: None/None'', p_notes = JNull, p_hive_ids = [],
            p_items = [(''1499'', JStr ''r1'')]\<rparr>, ''r1'', ''None'')]"
  by (simp add: ex_source_def legacy_mappings_def transform_defs date_defs dict_set_def)

text \<open>
  Claim C9, amended. The output of the transform has one triple per input record, in
  the order of the input: the triple at each position is the transform of the record at
  that position and carries that record's id. The transform adds no item code of its
  own: every key of a payload's items is a code the ruleset names, so the item
  \<^verbatim>\<open>1499\<close> is in no payload unless the ruleset names it.
\<close>

theorem transform_order_and_item_codes:
  assumes "transform_records records beep_hives beep_checklists m = Inr out"
  shows "length out = length records
    \<and> map (\<lambda>t. fst (snd t)) out = map source_id records
    \<and> (\<exists>hm cm. list_all2
          (\<lambda>r t. transform_record hm cm (get_or (checklist_fallback m) ''TBD'') m r = Inr t)
          records out)
    \<and> list_all (\<lambda>t. dict_keys (p_items (fst t)) \<subseteq> set (ruleset_codes m)) out
    \<and> (''1499'' \<notin> set (ruleset_codes m)
         \<longrightarrow> list_all (\<lambda>t. ''1499'' \<notin> dict_keys (p_items (fst t))) out)"
proof -
  from transform_records_pointwise [OF assms] obtain hm cm where
    pw: "list_all2 (\<lambda>r t. transform_record hm cm (get_or (checklist_fallback m) ''TBD'') m r = Inr t)
           records out"
    by blast
  have len: "length out = length records"
    using pw by (simp add: list_all2_lengthD)
  have ids: "map (\<lambda>t. fst (snd t)) out = map source_id records"
    using assms by (rule transform_records_ids)
  have codes: "dict_keys (p_items (fst t)) \<subseteq> set (ruleset_codes m)" if "t \<in> set out" for t
  proof -
    from that pw obtain r where "transform_record hm cm (get_or (checklist_fallback m) ''TBD'') m r = Inr t"
      by (auto simp: list_all2_conv_all_nth in_set_conv_nth)
    then show ?thesis
      by (auto dest!: transform_record_items keys_build_items)
  qed
  then have all: "list_all (\<lambda>t. dict_keys (p_items (fst t)) \<subseteq> set (ruleset_codes m)) out"
    by (simp add: list_all_iff)
  have "list_all (\<lambda>t. ''1499'' \<notin> dict_keys (p_items (fst t))) out"
    if "''1499'' \<notin> set (ruleset_codes m)"
    using codes that by (auto simp: list_all_iff)
  with len ids pw all show ?thesis by blast
qed

theorem transform_order_and_item_codes_witness:
  "transform_records ex_dataset [] [] ex_loaded =
     Inr [ex_out ''r1'' ''2024-05-11T12:34:56Z'', ex_out ''r2'' ''2024-05-12T12:34:56Z'',
          ex_out ''r3'' ''2024-05-13T12:34:56Z'']
   \<and> ''1499'' \<notin> set (ruleset_codes ex_loaded)
   \<and> map (\<lambda>t. fst (snd t))
        [ex_out ''r1'' ''2024-05-11T12:34:56Z'', ex_out ''r2'' ''2024-05-12T12:34:56Z'',
         ex_out ''r3'' ''2024-05-13T12:34:56Z''] = map source_id ex_dataset
   \<and> list_all (\<lambda>t. ''1499'' \<notin> dict_keys (p_items (fst t)))
        [ex_out ''r1'' ''2024-05-11T12:34:56Z'', ex_out ''r2'' ''2024-05-12T12:34:56Z'',
         ex_out ''r3'' ''2024-05-13T12:34:56Z'']"
proof -
  have c: "''1499'' \<notin> set (ruleset_codes ex_loaded)"
    by (simp add: ruleset_codes_def field_map_codes_def enum_codes_def stage_codes_def
        feeding_codes_def ex_loaded_def get_or_def)
  from transform_order_and_item_codes [OF ex_transformed] c
  show ?thesis using ex_transformed by blast
qed

section \<open>Properties of the rule tables\<close>

lemma map_of_dict_set: "map_of (dict_set k v d) = (map_of d)(k \<mapsto> v)"
  by (simp add: dict_set_def update_conv')

lemma map_of_dict_update: "map_of (dict_update d e) = map_of d ++ map_of (rev e)"
  unfolding dict_update_def
proof (induction e arbitrary: d)
  case Nil
  show ?case by simp
next
  case (Cons kv e)
  obtain k v where kv: "kv = (k, v)" by (cases kv)
  show ?case
    unfolding kv
    apply (simp add: Cons.IH map_of_dict_set)
    apply (rule ext)
    apply (simp add: map_add_def split: option.splits)
    done
qed

lemma dict_set_as_update: "dict_set k v d = dict_update d [(k, v)]"
  by (simp add: dict_update_def)

lemma map_add_twice: "(a ++ b) ++ b = a ++ b"
  by (rule ext) (simp add: map_add_def split: option.splits)

lemma field_map_sets_Cons:
  "field_map_sets r (cf # fm) =
     (if map_of r (snd cf) \<noteq> None \<and> dict_get r (snd cf) \<noteq> JNull
      then [(fst cf, dict_get r (snd cf))] else []) @ field_map_sets r fm"
  by (simp add: field_map_sets_def)

lemma map_of_rev_append: "map_of (rev (xs @ ys)) = map_of (rev xs) ++ map_of (rev ys)"
  by simp

lemma map_of_apply_field_map:
  "map_of (apply_field_map r fm acc) = map_of acc ++ map_of (rev (field_map_sets r fm))"
proof (induction r fm acc rule: apply_field_map.induct)
  case (1 r acc)
  show ?case by (simp add: field_map_sets_def)
next
  case (2 r beep_item_id ht_field rest acc)
  show ?case
  proof (cases "map_of r ht_field \<noteq> None \<and> dict_get r ht_field \<noteq> JNull")
    case True
    then have "map_of (apply_field_map r ((beep_item_id, ht_field) # rest) acc) =
        map_of (apply_field_map r rest (dict_update acc [(beep_item_id, dict_get r ht_field)]))"
      by (simp add: dict_set_as_update)
    also have "\<dots> = (map_of acc ++ map_of (rev [(beep_item_id, dict_get r ht_field)]))
        ++ map_of (rev (field_map_sets r rest))"
      using "2.IH" True by (simp only: dict_set_as_update if_True map_of_dict_update simp_thms)
    also have "\<dots> = map_of acc
        ++ map_of (rev ([(beep_item_id, dict_get r ht_field)] @ field_map_sets r rest))"
      by (simp only: map_of_rev_append map_add_assoc)
    finally show ?thesis using True by (simp only: field_map_sets_Cons fst_conv snd_conv if_True simp_thms)
  next
    case False
    then show ?thesis using "2.IH" by (auto simp: field_map_sets_Cons)
  qed
qed

lemma enum_sets_Cons:
  "enum_sets r (fv # en) =
     (case str_dict_find (dict_get r (fst fv)) (snd fv) of
        Inr (Some pairs) \<Rightarrow> pairs
      | _ \<Rightarrow> []) @ enum_sets r en"
  by (simp add: enum_sets_def)

lemma map_of_apply_enums:
  "apply_enums r en acc = Inr acc' \<Longrightarrow>
   map_of acc' = map_of acc ++ map_of (rev (enum_sets r en))"
proof (induction r en acc arbitrary: acc' rule: apply_enums.induct)
  case (1 r acc)
  then show ?case by (simp add: enum_sets_def)
next
  case (2 r ht_field value_map rest acc)
  show ?case
  proof (cases "str_dict_find (dict_get r ht_field) value_map")
    case (Inl e)
    with "2.prems" show ?thesis by simp
  next
    case (Inr found)
    show ?thesis
    proof (cases found)
      case None
      with Inr "2.prems" have "apply_enums r rest acc = Inr acc'" by simp
      from "2.IH"(1) [OF Inr None this] show ?thesis
        using Inr None by (simp add: enum_sets_Cons)
    next
      case (Some pairs)
      with Inr "2.prems" have "apply_enums r rest (dict_update acc pairs) = Inr acc'" by simp
      from "2.IH"(2) [OF Inr Some this]
      have "map_of acc' = (map_of acc ++ map_of (rev pairs)) ++ map_of (rev (enum_sets r rest))"
        by (simp add: map_of_dict_update)
      also have "\<dots> = map_of acc ++ map_of (rev (pairs @ enum_sets r rest))"
        unfolding map_of_rev_append by (simp add: map_add_assoc)
      finally show ?thesis using Inr Some by (simp add: enum_sets_Cons)
    qed
  qed
qed

lemma stage_sets_Cons:
  "stage_sets stages (lc # flags) =
     (if contains_str (fst lc) stages = Inr True then [(py_str (snd lc), JBool True)] else [])
     @ stage_sets stages flags"
  by (simp add: stage_sets_def)

lemma map_of_apply_stage_flags:
  "apply_stage_flags stages flags acc = Inr acc' \<Longrightarrow>
   map_of acc' = map_of acc ++ map_of (rev (stage_sets stages flags))"
proof (induction stages flags acc arbitrary: acc' rule: apply_stage_flags.induct)
  case (1 stages acc)
  then show ?case by (simp add: stage_sets_def)
next
  case (2 stages label beep_item_id rest acc)
  from "2.prems" obtain b where b: "contains_str label stages = Inr b"
    and rest: "apply_stage_flags stages rest
        (if b then dict_set (py_str beep_item_id) (JBool True) acc else acc) = Inr acc'"
    by (auto split: sum.splits)
  note ih = "2.IH" [OF b rest]
  show ?case
  proof (cases b)
    case True
    with ih have "map_of acc' = (map_of acc ++ map_of (rev [(py_str beep_item_id, JBool True)]))
        ++ map_of (rev (stage_sets stages rest))"
      by (simp only: dict_set_as_update if_True map_of_dict_update simp_thms)
    also have "\<dots> = map_of acc
        ++ map_of (rev ([(py_str beep_item_id, JBool True)] @ stage_sets stages rest))"
      by (simp only: map_of_rev_append map_add_assoc)
    finally show ?thesis using b True by (simp only: stage_sets_Cons fst_conv snd_conv if_True simp_thms)
  next
    case False
    with ih b show ?thesis by (simp add: stage_sets_Cons)
  qed
qed

lemma map_of_apply_feeding_rule:
  assumes "apply_feeding_rule food_type food_other rule acc = Inr acc'"
  shows "map_of acc' = map_of acc
     ++ map_of (rev (if rule_matches food_type food_other rule then get_or (rule_set rule) [] else []))"
proof -
  let ?pairs = "get_or (rule_set rule) []"
  let ?c1 = "case if_type rule of None \<Rightarrow> False | Some t \<Rightarrow> food_type = JStr t"
  from assms obtain b2 b3 where
    b2: "(case if_other_contains_any rule of None \<Rightarrow> Inr False
          | Some xs \<Rightarrow> any_contains xs food_other) = Inr b2"
    and b3: "(case if_other_contains rule of None \<Rightarrow> Inr False
          | Some x \<Rightarrow> contains_str x food_other) = Inr b3"
    and acc': "acc' = (if b3 then dict_update (if b2 then dict_update (if ?c1 then dict_update acc ?pairs else acc) ?pairs
                else (if ?c1 then dict_update acc ?pairs else acc)) ?pairs
             else (if b2 then dict_update (if ?c1 then dict_update acc ?pairs else acc) ?pairs
                else (if ?c1 then dict_update acc ?pairs else acc)))"
    unfolding apply_feeding_rule_def Let_def by (auto split: sum.splits)
  have m: "rule_matches food_type food_other rule = (?c1 \<or> b2 \<or> b3)"
    using b2 b3 unfolding rule_matches_def by (auto split: option.splits)
  show ?thesis
    unfolding acc' m by (simp add: map_of_dict_update map_add_twice)
qed

lemma feeding_sets_Cons:
  "feeding_sets food_type food_other (rule # rules) =
     (if rule_matches food_type food_other rule then get_or (rule_set rule) [] else [])
     @ feeding_sets food_type food_other rules"
  by (simp add: feeding_sets_def)

lemma map_of_apply_feeding_rules:
  "apply_feeding_rules food_type food_other rules acc = Inr acc' \<Longrightarrow>
   map_of acc' = map_of acc ++ map_of (rev (feeding_sets food_type food_other rules))"
proof (induction rules arbitrary: acc)
  case Nil
  then show ?case by (simp add: feeding_sets_def)
next
  case (Cons rule rules)
  from Cons.prems obtain acc1 where
    one: "apply_feeding_rule food_type food_other rule acc = Inr acc1" and
    rest: "apply_feeding_rules food_type food_other rules acc1 = Inr acc'"
    by (auto split: sum.splits)
  let ?here = "if rule_matches food_type food_other rule then get_or (rule_set rule) [] else []"
  from Cons.IH [OF rest] map_of_apply_feeding_rule [OF one]
  have "map_of acc' = (map_of acc ++ map_of (rev ?here))
      ++ map_of (rev (feeding_sets food_type food_other rules))"
    by simp
  also have "\<dots> = map_of acc ++ map_of (rev (?here @ feeding_sets food_type food_other rules))"
    unfolding map_of_rev_append by (simp add: map_add_assoc)
  finally show ?case by (simp add: feeding_sets_Cons)
qed

lemma map_of_build_items:
  assumes "build_items r m = Inr acc"
  shows "map_of acc =
     map_of (rev (field_map_sets r (get_or (field_map m) [])))
     ++ map_of (rev (enum_sets r (get_or (enums m) [])))
     ++ map_of (rev (stage_sets (stages_of r m) (stage_flags_of m)))
     ++ map_of (rev (feeding_sets (food_type_of r) (food_other_of r) (get_or (feeding_rules m) [])))"
proof -
  from assms obtain acc2 acc3 where
    e: "apply_enums r (get_or (enums m) []) (apply_field_map r (get_or (field_map m) []) []) = Inr acc2"
    and s: "apply_stage_flags (stages_of r m) (stage_flags_of m) acc2 = Inr acc3"
    and f: "apply_feeding_rules (food_type_of r) (food_other_of r) (get_or (feeding_rules m) []) acc3
        = Inr acc"
    unfolding build_items_def Let_def stages_of_def stage_flags_of_def food_type_of_def
      food_other_of_def
    by (auto split: sum.splits)
  show ?thesis
    unfolding map_of_apply_feeding_rules [OF f] map_of_apply_stage_flags [OF s]
      map_of_apply_enums [OF e] map_of_apply_field_map
    by simp
qed

lemma last_set_None: "(last_set sets k = None) = (k \<notin> set (map fst sets))"
  by (simp add: last_set_def map_of_eq_None_iff)

lemma last_set_append:
  "last_set (xs @ ys) k = (case last_set ys k of Some v \<Rightarrow> Some v | None \<Rightarrow> last_set xs k)"
  by (simp add: last_set_def map_add_def split: option.splits)

lemma feeding_sets_split:
  "feeding_sets food_type food_other (rs1 @ rule # rs2) =
     feeding_sets food_type food_other rs1
     @ (if rule_matches food_type food_other rule then get_or (rule_set rule) [] else [])
     @ feeding_sets food_type food_other rs2"
  by (simp add: feeding_sets_def)

lemma feeding_sets_keys:
  "k \<in> set (map fst (feeding_sets food_type food_other rules)) \<Longrightarrow>
   \<exists>q \<in> set rules. rule_matches food_type food_other q \<and> k \<in> set (map fst (get_or (rule_set q) []))"
  by (auto simp: feeding_sets_def)

text \<open>
  Claim C3. The items of a payload are built by the four rule tables in the fixed order
  \<^verbatim>\<open>field_map\<close>, \<^verbatim>\<open>enums\<close>, \<^verbatim>\<open>stages_flags\<close>, \<^verbatim>\<open>feeding_rules\<close>: the items hold, for
  every code, the last assignment made in that order. So a code the feeding rules set
  has the value they give it, else the value of the stage flags, else of the enums, else
  of the field map; and among the feeding rules the value is the one of the last
  matching rule, in declared order, that sets the code.
\<close>

theorem rule_tables_apply_in_order:
  assumes "build_items r m = Inr acc"
  shows "map_of acc k =
      (case last_set (feeding_sets (food_type_of r) (food_other_of r) (get_or (feeding_rules m) [])) k of
         Some v \<Rightarrow> Some v
       | None \<Rightarrow>
      (case last_set (stage_sets (stages_of r m) (stage_flags_of m)) k of
         Some v \<Rightarrow> Some v
       | None \<Rightarrow>
      (case last_set (enum_sets r (get_or (enums m) [])) k of
         Some v \<Rightarrow> Some v
       | None \<Rightarrow> last_set (field_map_sets r (get_or (field_map m) [])) k)))
    \<and> map_of acc =
        map_of (rev (field_map_sets r (get_or (field_map m) [])
                     @ enum_sets r (get_or (enums m) [])
                     @ stage_sets (stages_of r m) (stage_flags_of m)
                     @ feeding_sets (food_type_of r) (food_other_of r) (get_or (feeding_rules m) [])))
    \<and> (\<forall>rs1 rule rs2.
          get_or (feeding_rules m) [] = rs1 @ rule # rs2
          \<and> rule_matches (food_type_of r) (food_other_of r) rule
          \<and> k \<in> set (map fst (get_or (rule_set rule) []))
          \<and> (\<forall>q \<in> set rs2. rule_matches (food_type_of r) (food_other_of r) q
                 \<longrightarrow> k \<notin> set (map fst (get_or (rule_set q) [])))
          \<longrightarrow> map_of acc k = last_set (get_or (rule_set rule) []) k)
    \<and> (\<forall>t. transform_record hm cm fb m r = Inr t \<longrightarrow> p_items (fst t) = acc)"
proof -
  let ?F = "field_map_sets r (get_or (field_map m) [])"
  let ?E = "enum_sets r (get_or (enums m) [])"
  let ?S = "stage_sets (stages_of r m) (stage_flags_of m)"
  let ?D = "feeding_sets (food_type_of r) (food_other_of r) (get_or (feeding_rules m) [])"
  note maps = map_of_build_items [OF assms]
  have whole: "map_of acc = map_of (rev (?F @ ?E @ ?S @ ?D))"
    unfolding maps by (simp add: map_add_assoc)
  have chain: "map_of acc k =
      (case last_set ?D k of Some v \<Rightarrow> Some v | None \<Rightarrow>
      (case last_set ?S k of Some v \<Rightarrow> Some v | None \<Rightarrow>
      (case last_set ?E k of Some v \<Rightarrow> Some v | None \<Rightarrow> last_set ?F k)))"
    unfolding maps by (simp add: last_set_def map_add_def split: option.splits)
  have within: "map_of acc k = last_set (get_or (rule_set rule) []) k"
    if split: "get_or (feeding_rules m) [] = rs1 @ rule # rs2"
      and hit: "rule_matches (food_type_of r) (food_other_of r) rule"
      and key: "k \<in> set (map fst (get_or (rule_set rule) []))"
      and later: "\<forall>q \<in> set rs2. rule_matches (food_type_of r) (food_other_of r) q
                 \<longrightarrow> k \<notin> set (map fst (get_or (rule_set q) []))"
    for rs1 rule rs2
  proof -
    have "k \<notin> set (map fst (feeding_sets (food_type_of r) (food_other_of r) rs2))"
      using later feeding_sets_keys [of k "food_type_of r" "food_other_of r" rs2] by blast
    then have none: "last_set (feeding_sets (food_type_of r) (food_other_of r) rs2) k = None"
      by (simp add: last_set_None)
    from key have "last_set (get_or (rule_set rule) []) k \<noteq> None"
      by (simp add: last_set_None)
    then obtain v where v: "last_set (get_or (rule_set rule) []) k = Some v" by blast
    have "last_set ?D k = Some v"
      unfolding split feeding_sets_split using hit none v
      by (simp add: last_set_append)
    with chain v show ?thesis by simp
  qed
  have "p_items (fst t) = acc" if "transform_record hm cm fb m r = Inr t" for t
    using transform_record_items [OF that] assms by simp
  with chain whole within show ?thesis by blast
qed

lemma ex_fed_items:
  "build_items ex_fed_record ex_overlapping =
     Inr [(''10'', JInt 5), (''11'', JStr ''calm''), (''12'', JInt 1), (''13'', JBool True),
          (''30'', JInt 6)]"
  by (simp add: build_items_def ex_fed_record_def ex_overlapping_def get_or_def py_or_def
      dict_get_def dict_get_default_def dict_set_def dict_update_def apply_feeding_rule_def
      str_int_def digit_char_def sublist_code Let_def)

theorem rule_tables_apply_in_order_witness:
  "build_items ex_fed_record ex_overlapping =
     Inr [(''10'', JInt 5), (''11'', JStr ''calm''), (''12'', JInt 1), (''13'', JBool True),
          (''30'', JInt 6)]
   \<and> last_set (field_map_sets ex_fed_record (get_or (field_map ex_overlapping) [])) ''10''
       = Some (JStr ''calm'')
   \<and> last_set (enum_sets ex_fed_record (get_or (enums ex_overlapping) [])) ''10'' = Some (JInt 1)
   \<and> last_set (stage_sets (stages_of ex_fed_record ex_overlapping) (stage_flags_of ex_overlapping)) ''10''
       = Some (JBool True)
   \<and> last_set (feeding_sets (food_type_of ex_fed_record) (food_other_of ex_fed_record)
        (get_or (feeding_rules ex_overlapping) [])) ''10'' = Some (JInt 5)
   \<and> map_of [(''10'', JInt 5), (''11'', JStr ''calm''), (''12'', JInt 1), (''13'', JBool True),
          (''30'', JInt 6)] ''10'' = Some (JInt 5)"
proof -
  have f: "last_set (field_map_sets ex_fed_record (get_or (field_map ex_overlapping) [])) ''10''
       = Some (JStr ''calm'')"
    by (simp add: last_set_def field_map_sets_def ex_fed_record_def ex_overlapping_def get_or_def
        dict_get_def dict_get_default_def)
  have e: "last_set (enum_sets ex_fed_record (get_or (enums ex_overlapping) [])) ''10'' = Some (JInt 1)"
    by (simp add: last_set_def enum_sets_def ex_fed_record_def ex_overlapping_def get_or_def
        dict_get_def dict_get_default_def)
  have s: "last_set (stage_sets (stages_of ex_fed_record ex_overlapping) (stage_flags_of ex_overlapping)) ''10''
       = Some (JBool True)"
    by (simp add: last_set_def stage_sets_def stages_of_def stage_flags_of_def ex_fed_record_def
        ex_overlapping_def get_or_def py_or_def dict_get_def dict_get_default_def str_int_def
        digit_char_def)
  have d: "last_set (feeding_sets (food_type_of ex_fed_record) (food_other_of ex_fed_record)
        (get_or (feeding_rules ex_overlapping) [])) ''10'' = Some (JInt 5)"
    by (simp add: last_set_def feeding_sets_def rule_matches_def food_type_of_def food_other_of_def
        ex_fed_record_def ex_overlapping_def get_or_def py_or_def dict_get_def dict_get_default_def)
  from rule_tables_apply_in_order [OF ex_fed_items, of "''10''", THEN conjunct1]
  have "map_of [(''10'', JInt 5), (''11'', JStr ''calm''), (''12'', JInt 1), (''13'', JBool True),
          (''30'', JInt 6)] ''10'' = Some (JInt 5)"
    unfolding d by simp
  with ex_fed_items f e s d show ?thesis by blast
qed

section \<open>Properties of the record normalizer\<close>

lemma of_char_lower:
  "(of_char (lower x) :: nat) =
     (if 65 \<le> (of_char x :: nat) \<and> (of_char x :: nat) \<le> 90 then of_char x + 32 else of_char x)"
  by (simp add: lower_def Let_def of_char_of)

lemma char_eq_nat: "(a = b) = ((of_char a :: nat) = of_char b)"
  by simp

lemma lower_literals:
  "(lower x = lower CHR ''-'') = (x = CHR ''-'')"
  "(lower x = lower CHR '':'') = (x = CHR '':'')"
  "(lower x = lower CHR ''.'') = (x = CHR ''.'')"
  "(lower x = lower CHR ''T'') = (x = CHR ''T'' \<or> x = CHR ''t'')"
  "(lower x = lower CHR ''Z'') = (x = CHR ''Z'' \<or> x = CHR ''z'')"
  unfolding char_eq_nat [of "lower x"] char_eq_nat [of x] of_char_lower
  by (auto simp: of_char_lower)

lemma span_digits:
  assumes "digits ds" and "rest = [] \<or> \<not> is_digit (hd rest)"
  shows "takeWhile is_digit (ds @ rest) = ds" and "dropWhile is_digit (ds @ rest) = rest"
proof -
  from assms(1) have all: "\<forall>c \<in> set ds. is_digit c"
    by (simp add: digits_def list_all_iff)
  from assms(2) have stop: "takeWhile is_digit rest = []" "dropWhile is_digit rest = rest"
    by (cases rest; simp)+
  from all stop show "takeWhile is_digit (ds @ rest) = ds"
    by (simp add: takeWhile_append2)
  from all stop show "dropWhile is_digit (ds @ rest) = rest"
    by (simp add: dropWhile_append2)
qed

lemma digits_field_Some:
  "(digits_field ok s = Some (n, rest)) =
     (\<exists>ds. s = ds @ rest \<and> digits ds \<and> (rest = [] \<or> \<not> is_digit (hd rest)) \<and> ok ds \<and> n = num ds)"
proof
  assume "digits_field ok s = Some (n, rest)"
  then have ok: "ok (takeWhile is_digit s)" and n: "n = num (takeWhile is_digit s)"
    and rest: "rest = dropWhile is_digit s"
    by (auto simp: digits_field_def Let_def split: if_splits)
  have "s = takeWhile is_digit s @ rest"
    by (simp add: rest)
  moreover have "digits (takeWhile is_digit s)"
    by (auto simp: digits_def list_all_iff dest: set_takeWhileD)
  moreover have "rest = [] \<or> \<not> is_digit (hd rest)"
    unfolding rest by (cases "dropWhile is_digit s = []") (auto simp: hd_dropWhile)
  ultimately show "\<exists>ds. s = ds @ rest \<and> digits ds \<and> (rest = [] \<or> \<not> is_digit (hd rest)) \<and> ok ds \<and> n = num ds"
    using ok n by blast
next
  assume "\<exists>ds. s = ds @ rest \<and> digits ds \<and> (rest = [] \<or> \<not> is_digit (hd rest)) \<and> ok ds \<and> n = num ds"
  then obtain ds where "s = ds @ rest" "digits ds" "rest = [] \<or> \<not> is_digit (hd rest)" "ok ds" "n = num ds"
    by blast
  then show "digits_field ok s = Some (n, rest)"
    by (simp add: digits_field_def Let_def span_digits)
qed

lemma match_literal:
  assumes "c \<noteq> CHR ''%''"
  shows "(match_format (c # fmt) s = Some vs) =
     (\<exists>x s'. s = x # s' \<and> lower x = lower c \<and> match_format fmt s' = Some vs)"
proof (cases fmt)
  case Nil
  then show ?thesis by (cases s) auto
next
  case (Cons k fmt')
  with assms show ?thesis by (cases s) auto
qed

lemma match_directive:
  "(match_format (CHR ''%'' # k # fmt) s = Some vs) =
     (\<exists>n rest vs'. directive k s = Some (n, rest) \<and> match_format fmt rest = Some vs' \<and> vs = n # vs')"
  by (auto split: option.splits)

lemma match_end: "(match_format [] s = Some vs) = (s = [] \<and> vs = [])"
  by auto

lemma directive_digits:
  "directive CHR ''Y'' s = digits_field re_Y s"
  "directive CHR ''m'' s = digits_field re_m s"
  "directive CHR ''H'' s = digits_field re_H s"
  "directive CHR ''M'' s = digits_field re_M s"
  "directive CHR ''S'' s = digits_field re_S s"
  "directive CHR ''f'' s = digits_field re_f s"
  by (simp_all add: directive_def)

lemma not_digit_literals:
  "\<not> is_digit CHR ''-''" "\<not> is_digit CHR '':''" "\<not> is_digit CHR ''.''" "\<not> is_digit CHR ''T''"
  "\<not> is_digit CHR ''t''" "\<not> is_digit CHR ''Z''" "\<not> is_digit CHR ''z''" "\<not> is_digit CHR '' ''"
  by (simp_all add: is_digit_def)

lemma num_single: "num [c] = digit_val c"
  by (simp add: num_def)

lemma directive_day:
  "(directive CHR ''d'' s = Some (n, rest)) =
     (\<exists>d. s = d @ rest
        \<and> (digits d \<and> (rest = [] \<or> \<not> is_digit (hd rest)) \<and> re_d d
            \<or> (\<exists>c. d = [CHR '' '', c] \<and> c \<in> set ''123456789''))
        \<and> n = num (filter is_digit d))"
proof -
  have filt: "digits d \<Longrightarrow> filter is_digit d = d" for d
    by (simp add: digits_def list_all_iff)
  have blank: "c \<in> set ''123456789'' \<Longrightarrow> num (filter is_digit [CHR '' '', c]) = digit_val c" for c
    by (auto simp: is_digit_def num_def)
  have nodigits: "digits d \<Longrightarrow> d \<noteq> CHR '' '' # d'" for d d'
    by (auto simp: digits_def is_digit_def)
  show ?thesis
  proof (cases "\<exists>c s'. s = CHR '' '' # c # s'")
    case True
    then obtain c s' where s: "s = CHR '' '' # c # s'" by blast
    have "(directive CHR ''d'' s = Some (n, rest)) =
        (c \<in> set ''123456789'' \<and> n = digit_val c \<and> rest = s')"
      unfolding s by (auto simp: directive_def)
    also have "\<dots> = (\<exists>d. s = d @ rest
        \<and> (digits d \<and> (rest = [] \<or> \<not> is_digit (hd rest)) \<and> re_d d
            \<or> (\<exists>c. d = [CHR '' '', c] \<and> c \<in> set ''123456789''))
        \<and> n = num (filter is_digit d))"
    proof
      assume "c \<in> set ''123456789'' \<and> n = digit_val c \<and> rest = s'"
      then have "s = [CHR '' '', c] @ rest" "c \<in> set ''123456789''" "n = num (filter is_digit [CHR '' '', c])"
        using s blank by simp_all
      then show "\<exists>d. s = d @ rest
        \<and> (digits d \<and> (rest = [] \<or> \<not> is_digit (hd rest)) \<and> re_d d
            \<or> (\<exists>c. d = [CHR '' '', c] \<and> c \<in> set ''123456789''))
        \<and> n = num (filter is_digit d)"
        by blast
    next
      assume "\<exists>d. s = d @ rest
        \<and> (digits d \<and> (rest = [] \<or> \<not> is_digit (hd rest)) \<and> re_d d
            \<or> (\<exists>c. d = [CHR '' '', c] \<and> c \<in> set ''123456789''))
        \<and> n = num (filter is_digit d)"
      then obtain d where d: "s = d @ rest" "n = num (filter is_digit d)"
        and form: "digits d \<and> (rest = [] \<or> \<not> is_digit (hd rest)) \<and> re_d d
            \<or> (\<exists>c. d = [CHR '' '', c] \<and> c \<in> set ''123456789'')"
        by blast
      from form show "c \<in> set ''123456789'' \<and> n = digit_val c \<and> rest = s'"
      proof
        assume dig: "digits d \<and> (rest = [] \<or> \<not> is_digit (hd rest)) \<and> re_d d"
        then have "d \<noteq> []" by (auto simp: re_d_def)
        then obtain x d' where "d = x # d'" by (cases d) auto
        with d(1) s have "d = CHR '' '' # d'" by simp
        with dig nodigits show ?thesis by blast
      next
        assume "\<exists>c. d = [CHR '' '', c] \<and> c \<in> set ''123456789''"
        then obtain c' where c': "d = [CHR '' '', c']" "c' \<in> set ''123456789''" by blast
        with d s have "c' = c" "rest = s'" by simp_all
        with c' d(2) blank show ?thesis by simp
      qed
    qed
    finally show ?thesis .
  next
    case False
    then have eq: "directive CHR ''d'' s = digits_field re_d s"
      by (auto simp: directive_def split: list.splits)
    have noblank: "\<not> (\<exists>c. d = [CHR '' '', c] \<and> s = d @ rest)" for d
      using False by auto
    show ?thesis
      unfolding eq digits_field_Some
    proof
      assume "\<exists>ds. s = ds @ rest \<and> digits ds \<and> (rest = [] \<or> \<not> is_digit (hd rest)) \<and> re_d ds \<and> n = num ds"
      then obtain ds where "s = ds @ rest" "digits ds" "rest = [] \<or> \<not> is_digit (hd rest)" "re_d ds"
        "n = num ds" by blast
      moreover from this have "n = num (filter is_digit ds)" by (simp add: filt)
      ultimately show "\<exists>d. s = d @ rest
        \<and> (digits d \<and> (rest = [] \<or> \<not> is_digit (hd rest)) \<and> re_d d
            \<or> (\<exists>c. d = [CHR '' '', c] \<and> c \<in> set ''123456789''))
        \<and> n = num (filter is_digit d)"
        by blast
    next
      assume "\<exists>d. s = d @ rest
        \<and> (digits d \<and> (rest = [] \<or> \<not> is_digit (hd rest)) \<and> re_d d
            \<or> (\<exists>c. d = [CHR '' '', c] \<and> c \<in> set ''123456789''))
        \<and> n = num (filter is_digit d)"
      then obtain d where d: "s = d @ rest" "n = num (filter is_digit d)"
        and form: "digits d \<and> (rest = [] \<or> \<not> is_digit (hd rest)) \<and> re_d d
            \<or> (\<exists>c. d = [CHR '' '', c] \<and> c \<in> set ''123456789'')"
        by blast
      from form noblank [of d] d(1)
      have dig: "digits d" "rest = [] \<or> \<not> is_digit (hd rest)" "re_d d" by blast+
      with d(2) have "n = num d" by (simp add: filt)
      with d(1) dig
      show "\<exists>ds. s = ds @ rest \<and> digits ds \<and> (rest = [] \<or> \<not> is_digit (hd rest)) \<and> re_d ds \<and> n = num ds"
        by blast
    qed
  qed
qed

lemma field_then_literal:
  assumes dir: "\<And>s. directive k s = digits_field ok s"
    and c: "c \<noteq> CHR ''%''" "\<And>x. lower x = lower c \<Longrightarrow> \<not> is_digit x"
  shows "(match_format (CHR ''%'' # k # c # fmt) s = Some vs) =
     (\<exists>ds x s' vs'. s = ds @ x # s' \<and> digits ds \<and> ok ds \<and> lower x = lower c
        \<and> match_format fmt s' = Some vs' \<and> vs = num ds # vs')"
proof
  assume "match_format (CHR ''%'' # k # c # fmt) s = Some vs"
  then obtain n rest vs' where "directive k s = Some (n, rest)"
    and m: "match_format (c # fmt) rest = Some vs'" and vs: "vs = n # vs'"
    unfolding match_directive by blast
  then obtain ds where ds: "s = ds @ rest" "digits ds" "ok ds" "n = num ds"
    unfolding dir digits_field_Some by blast
  from m obtain x s' where "rest = x # s'" "lower x = lower c" "match_format fmt s' = Some vs'"
    unfolding match_literal [OF c(1)] by blast
  with ds vs show "\<exists>ds x s' vs'. s = ds @ x # s' \<and> digits ds \<and> ok ds \<and> lower x = lower c
        \<and> match_format fmt s' = Some vs' \<and> vs = num ds # vs'"
    by blast
next
  assume "\<exists>ds x s' vs'. s = ds @ x # s' \<and> digits ds \<and> ok ds \<and> lower x = lower c
        \<and> match_format fmt s' = Some vs' \<and> vs = num ds # vs'"
  then obtain ds x s' vs' where s: "s = ds @ x # s'" and ds: "digits ds" "ok ds"
    and x: "lower x = lower c" and m: "match_format fmt s' = Some vs'" and vs: "vs = num ds # vs'"
    by blast
  from x have stop: "x # s' = [] \<or> \<not> is_digit (hd (x # s'))"
    by (simp add: c(2))
  have "directive k s = Some (num ds, x # s')"
    unfolding dir digits_field_Some using s ds stop by blast
  moreover have "match_format (c # fmt) (x # s') = Some vs'"
    unfolding match_literal [OF c(1)] using x m by blast
  ultimately show "match_format (CHR ''%'' # k # c # fmt) s = Some vs"
    unfolding match_directive using vs by blast
qed

lemma day_then_literal:
  assumes c: "c \<noteq> CHR ''%''" "\<And>x. lower x = lower c \<Longrightarrow> \<not> is_digit x"
  shows "(match_format (CHR ''%'' # CHR ''d'' # c # fmt) s = Some vs) =
     (\<exists>d x s' vs'. s = d @ x # s'
        \<and> (digits d \<and> re_d d \<or> (\<exists>b. d = [CHR '' '', b] \<and> b \<in> set ''123456789''))
        \<and> lower x = lower c
        \<and> match_format fmt s' = Some vs' \<and> vs = num (filter is_digit d) # vs')"
proof
  assume "match_format (CHR ''%'' # CHR ''d'' # c # fmt) s = Some vs"
  then obtain n rest vs' where "directive CHR ''d'' s = Some (n, rest)"
    and m: "match_format (c # fmt) rest = Some vs'" and vs: "vs = n # vs'"
    unfolding match_directive by blast
  then obtain d where d: "s = d @ rest" "n = num (filter is_digit d)"
    "digits d \<and> re_d d \<or> (\<exists>b. d = [CHR '' '', b] \<and> b \<in> set ''123456789'')"
    unfolding directive_day by blast
  from m obtain x s' where "rest = x # s'" "lower x = lower c" "match_format fmt s' = Some vs'"
    unfolding match_literal [OF c(1)] by blast
  with d vs show "\<exists>d x s' vs'. s = d @ x # s'
        \<and> (digits d \<and> re_d d \<or> (\<exists>b. d = [CHR '' '', b] \<and> b \<in> set ''123456789''))
        \<and> lower x = lower c
        \<and> match_format fmt s' = Some vs' \<and> vs = num (filter is_digit d) # vs'"
    by blast
next
  assume "\<exists>d x s' vs'. s = d @ x # s'
        \<and> (digits d \<and> re_d d \<or> (\<exists>b. d = [CHR '' '', b] \<and> b \<in> set ''123456789''))
        \<and> lower x = lower c
        \<and> match_format fmt s' = Some vs' \<and> vs = num (filter is_digit d) # vs'"
  then obtain d x s' vs' where s: "s = d @ x # s'"
    and d: "digits d \<and> re_d d \<or> (\<exists>b. d = [CHR '' '', b] \<and> b \<in> set ''123456789'')"
    and x: "lower x = lower c" and m: "match_format fmt s' = Some vs'"
    and vs: "vs = num (filter is_digit d) # vs'"
    by blast
  from x have stop: "x # s' = [] \<or> \<not> is_digit (hd (x # s'))"
    by (simp add: c(2))
  have "directive CHR ''d'' s = Some (num (filter is_digit d), x # s')"
    unfolding directive_day using s d stop by blast
  moreover have "match_format (c # fmt) (x # s') = Some vs'"
    unfolding match_literal [OF c(1)] using x m by blast
  ultimately show "match_format (CHR ''%'' # CHR ''d'' # c # fmt) s = Some vs"
    unfolding match_directive using vs by blast
qed

lemma literal_stops:
  "lower x = lower CHR ''-'' \<Longrightarrow> \<not> is_digit x"
  "lower x = lower CHR '':'' \<Longrightarrow> \<not> is_digit x"
  "lower x = lower CHR ''.'' \<Longrightarrow> \<not> is_digit x"
  "lower x = lower CHR ''T'' \<Longrightarrow> \<not> is_digit x"
  "lower x = lower CHR ''Z'' \<Longrightarrow> \<not> is_digit x"
  by (auto simp: lower_literals not_digit_literals)

lemma year_step:
  "(match_format (CHR ''%'' # CHR ''Y'' # CHR ''-'' # fmt) s = Some vs) =
     (\<exists>ds x s' vs'. s = ds @ x # s' \<and> digits ds \<and> re_Y ds \<and> lower x = lower CHR ''-''
        \<and> match_format fmt s' = Some vs' \<and> vs = num ds # vs')"
  by (rule field_then_literal) (simp_all add: directive_digits literal_stops)

lemma month_step:
  "(match_format (CHR ''%'' # CHR ''m'' # CHR ''-'' # fmt) s = Some vs) =
     (\<exists>ds x s' vs'. s = ds @ x # s' \<and> digits ds \<and> re_m ds \<and> lower x = lower CHR ''-''
        \<and> match_format fmt s' = Some vs' \<and> vs = num ds # vs')"
  by (rule field_then_literal) (simp_all add: directive_digits literal_stops)

lemma hour_step:
  "(match_format (CHR ''%'' # CHR ''H'' # CHR '':'' # fmt) s = Some vs) =
     (\<exists>ds x s' vs'. s = ds @ x # s' \<and> digits ds \<and> re_H ds \<and> lower x = lower CHR '':''
        \<and> match_format fmt s' = Some vs' \<and> vs = num ds # vs')"
  by (rule field_then_literal) (simp_all add: directive_digits literal_stops)

lemma minute_step:
  "(match_format (CHR ''%'' # CHR ''M'' # CHR '':'' # fmt) s = Some vs) =
     (\<exists>ds x s' vs'. s = ds @ x # s' \<and> digits ds \<and> re_M ds \<and> lower x = lower CHR '':''
        \<and> match_format fmt s' = Some vs' \<and> vs = num ds # vs')"
  by (rule field_then_literal) (simp_all add: directive_digits literal_stops)

lemma second_step:
  "(match_format (CHR ''%'' # CHR ''S'' # CHR ''.'' # fmt) s = Some vs) =
     (\<exists>ds x s' vs'. s = ds @ x # s' \<and> digits ds \<and> re_S ds \<and> lower x = lower CHR ''.''
        \<and> match_format fmt s' = Some vs' \<and> vs = num ds # vs')"
  by (rule field_then_literal) (simp_all add: directive_digits literal_stops)

lemma fraction_step:
  "(match_format (CHR ''%'' # CHR ''f'' # CHR ''Z'' # fmt) s = Some vs) =
     (\<exists>ds x s' vs'. s = ds @ x # s' \<and> digits ds \<and> re_f ds \<and> lower x = lower CHR ''Z''
        \<and> match_format fmt s' = Some vs' \<and> vs = num ds # vs')"
  by (rule field_then_literal) (simp_all add: directive_digits literal_stops)

lemma day_step:
  "(match_format (CHR ''%'' # CHR ''d'' # CHR ''T'' # fmt) s = Some vs) =
     (\<exists>d x s' vs'. s = d @ x # s'
        \<and> (digits d \<and> re_d d \<or> (\<exists>b. d = [CHR '' '', b] \<and> b \<in> set ''123456789''))
        \<and> lower x = lower CHR ''T''
        \<and> match_format fmt s' = Some vs' \<and> vs = num (filter is_digit d) # vs')"
  by (rule day_then_literal) (simp_all add: literal_stops)

text \<open>The format of line 249 against a text, field by field.\<close>

lemma match_format_fields:
  "(match_format ''%Y-%m-%dT%H:%M:%S.%fZ'' s = Some vs) =
     (\<exists>Y mo d h mi se f sepT sepZ.
        s = Y @ ''-'' @ mo @ ''-'' @ d @ sepT # h @ '':'' @ mi @ '':'' @ se @ ''.'' @ f @ [sepZ]
        \<and> digits Y \<and> re_Y Y \<and> digits mo \<and> re_m mo
        \<and> (digits d \<and> re_d d \<or> (\<exists>b. d = [CHR '' '', b] \<and> b \<in> set ''123456789''))
        \<and> digits h \<and> re_H h \<and> digits mi \<and> re_M mi \<and> digits se \<and> re_S se
        \<and> digits f \<and> re_f f
        \<and> (sepT = CHR ''T'' \<or> sepT = CHR ''t'') \<and> (sepZ = CHR ''Z'' \<or> sepZ = CHR ''z'')
        \<and> vs = [num Y, num mo, num (filter is_digit d), num h, num mi, num se, num f])"
proof
  assume "match_format ''%Y-%m-%dT%H:%M:%S.%fZ'' s = Some vs"
  then obtain Y x1 s1 v1 where Y: "s = Y @ x1 # s1" "digits Y" "re_Y Y" "x1 = CHR ''-''"
    "vs = num Y # v1" and m1: "match_format ''%m-%dT%H:%M:%S.%fZ'' s1 = Some v1"
    unfolding year_step lower_literals by blast
  from m1 obtain mo x2 s2 v2 where mo: "s1 = mo @ x2 # s2" "digits mo" "re_m mo" "x2 = CHR ''-''"
    "v1 = num mo # v2" and m2: "match_format ''%dT%H:%M:%S.%fZ'' s2 = Some v2"
    unfolding month_step lower_literals by blast
  from m2 obtain d x3 s3 v3 where d: "s2 = d @ x3 # s3"
    "digits d \<and> re_d d \<or> (\<exists>b. d = [CHR '' '', b] \<and> b \<in> set ''123456789'')"
    "x3 = CHR ''T'' \<or> x3 = CHR ''t''" "v2 = num (filter is_digit d) # v3"
    and m3: "match_format ''%H:%M:%S.%fZ'' s3 = Some v3"
    unfolding day_step lower_literals by blast
  from m3 obtain h x4 s4 v4 where h: "s3 = h @ x4 # s4" "digits h" "re_H h" "x4 = CHR '':''"
    "v3 = num h # v4" and m4: "match_format ''%M:%S.%fZ'' s4 = Some v4"
    unfolding hour_step lower_literals by blast
  from m4 obtain mi x5 s5 v5 where mi: "s4 = mi @ x5 # s5" "digits mi" "re_M mi" "x5 = CHR '':''"
    "v4 = num mi # v5" and m5: "match_format ''%S.%fZ'' s5 = Some v5"
    unfolding minute_step lower_literals by blast
  from m5 obtain se x6 s6 v6 where se: "s5 = se @ x6 # s6" "digits se" "re_S se" "x6 = CHR ''.''"
    "v5 = num se # v6" and m6: "match_format ''%fZ'' s6 = Some v6"
    unfolding second_step lower_literals by blast
  from m6 obtain f x7 s7 v7 where f: "s6 = f @ x7 # s7" "digits f" "re_f f"
    "x7 = CHR ''Z'' \<or> x7 = CHR ''z''" "v6 = num f # v7" and m7: "match_format [] s7 = Some v7"
    unfolding fraction_step lower_literals by blast
  from m7 have e: "s7 = []" "v7 = []"
    unfolding match_end by blast+
  have "s = Y @ ''-'' @ mo @ ''-'' @ d @ x3 # h @ '':'' @ mi @ '':'' @ se @ ''.'' @ f @ [x7]"
    by (simp add: Y(1,4) mo(1,4) d(1) h(1,4) mi(1,4) se(1,4) f(1) e(1))
  moreover have "vs = [num Y, num mo, num (filter is_digit d), num h, num mi, num se, num f]"
    by (simp add: Y(5) mo(5) d(4) h(5) mi(5) se(5) f(5) e(2))
  ultimately show "\<exists>Y mo d h mi se f sepT sepZ.
        s = Y @ ''-'' @ mo @ ''-'' @ d @ sepT # h @ '':'' @ mi @ '':'' @ se @ ''.'' @ f @ [sepZ]
        \<and> digits Y \<and> re_Y Y \<and> digits mo \<and> re_m mo
        \<and> (digits d \<and> re_d d \<or> (\<exists>b. d = [CHR '' '', b] \<and> b \<in> set ''123456789''))
        \<and> digits h \<and> re_H h \<and> digits mi \<and> re_M mi \<and> digits se \<and> re_S se
        \<and> digits f \<and> re_f f
        \<and> (sepT = CHR ''T'' \<or> sepT = CHR ''t'') \<and> (sepZ = CHR ''Z'' \<or> sepZ = CHR ''z'')
        \<and> vs = [num Y, num mo, num (filter is_digit d), num h, num mi, num se, num f]"
    using Y(2,3) mo(2,3) d(2,3) h(2,3) mi(2,3) se(2,3) f(2,3,4) by blast
next
  assume "\<exists>Y mo d h mi se f sepT sepZ.
        s = Y @ ''-'' @ mo @ ''-'' @ d @ sepT # h @ '':'' @ mi @ '':'' @ se @ ''.'' @ f @ [sepZ]
        \<and> digits Y \<and> re_Y Y \<and> digits mo \<and> re_m mo
        \<and> (digits d \<and> re_d d \<or> (\<exists>b. d = [CHR '' '', b] \<and> b \<in> set ''123456789''))
        \<and> digits h \<and> re_H h \<and> digits mi \<and> re_M mi \<and> digits se \<and> re_S se
        \<and> digits f \<and> re_f f
        \<and> (sepT = CHR ''T'' \<or> sepT = CHR ''t'') \<and> (sepZ = CHR ''Z'' \<or> sepZ = CHR ''z'')
        \<and> vs = [num Y, num mo, num (filter is_digit d), num h, num mi, num se, num f]"
  then obtain Y mo d h mi se f sepT sepZ where
    s: "s = Y @ ''-'' @ mo @ ''-'' @ d @ sepT # h @ '':'' @ mi @ '':'' @ se @ ''.'' @ f @ [sepZ]"
    and Y: "digits Y" "re_Y Y" and mo: "digits mo" "re_m mo"
    and d: "digits d \<and> re_d d \<or> (\<exists>b. d = [CHR '' '', b] \<and> b \<in> set ''123456789'')"
    and h: "digits h" "re_H h" and mi: "digits mi" "re_M mi" and se: "digits se" "re_S se"
    and f: "digits f" "re_f f"
    and seps: "sepT = CHR ''T'' \<or> sepT = CHR ''t''" "sepZ = CHR ''Z'' \<or> sepZ = CHR ''z''"
    and vs: "vs = [num Y, num mo, num (filter is_digit d), num h, num mi, num se, num f]"
    by blast
  have m7: "match_format ''%fZ'' (f @ [sepZ]) = Some [num f]"
    unfolding fraction_step lower_literals match_end using f seps(2) by blast
  have m6: "match_format ''%S.%fZ'' (se @ ''.'' @ f @ [sepZ]) = Some [num se, num f]"
    unfolding second_step lower_literals using se m7 by (simp, blast)
  have m5: "match_format ''%M:%S.%fZ'' (mi @ '':'' @ se @ ''.'' @ f @ [sepZ])
      = Some [num mi, num se, num f]"
    unfolding minute_step lower_literals using mi m6 by (simp, blast)
  have m4: "match_format ''%H:%M:%S.%fZ'' (h @ '':'' @ mi @ '':'' @ se @ ''.'' @ f @ [sepZ])
      = Some [num h, num mi, num se, num f]"
    unfolding hour_step lower_literals using h m5 by (simp, blast)
  have m3: "match_format ''%dT%H:%M:%S.%fZ''
        (d @ sepT # h @ '':'' @ mi @ '':'' @ se @ ''.'' @ f @ [sepZ])
      = Some [num (filter is_digit d), num h, num mi, num se, num f]"
    unfolding day_step lower_literals using d seps(1) m4 by blast
  have m2: "match_format ''%m-%dT%H:%M:%S.%fZ''
        (mo @ ''-'' @ d @ sepT # h @ '':'' @ mi @ '':'' @ se @ ''.'' @ f @ [sepZ])
      = Some [num mo, num (filter is_digit d), num h, num mi, num se, num f]"
    unfolding month_step lower_literals using mo m3 by (simp, blast)
  show "match_format ''%Y-%m-%dT%H:%M:%S.%fZ'' s = Some vs"
    unfolding year_step lower_literals s vs using Y m2 by (simp, blast)
qed

lemma blank_day_value:
  "b \<in> set ''123456789'' \<Longrightarrow>
   num (filter is_digit [CHR '' '', b]) = digit_val b \<and> 1 \<le> digit_val b \<and> digit_val b \<le> 9"
  by (auto simp: is_digit_def num_def digit_val_def)

lemma days_in_month_le: "days_in_month y m \<le> 31"
  by (simp add: days_in_month_def)

lemma strptime_match:
  assumes "strptime s fmt = Inr t"
  shows "\<exists>y mo d h mi se f. match_format fmt s = Some [y, mo, d, h, mi, se, f]
     \<and> t = \<lparr>dt_year = y, dt_month = mo, dt_day = d, dt_hour = h, dt_minute = mi, dt_second = se\<rparr>
     \<and> 1 \<le> y \<and> d \<le> days_in_month y mo \<and> se \<le> 59"
  using assms unfolding strptime_def
  by (simp split: option.splits list.splits if_splits)

lemma day_text_value:
  assumes "digits d \<and> re_d d \<or> (\<exists>b. d = [CHR '' '', b] \<and> b \<in> set ''123456789'')"
  shows "1 \<le> num (filter is_digit d)"
    and "digits d \<and> (length d = 1 \<or> length d = 2)
            \<or> (\<exists>b. d = [CHR '' '', b] \<and> b \<in> set ''123456789'')"
proof -
  from assms show "1 \<le> num (filter is_digit d)"
  proof
    assume "digits d \<and> re_d d"
    then have "filter is_digit d = d" "1 \<le> num d"
      by (simp_all add: digits_def list_all_iff re_d_def)
    then show ?thesis by simp
  next
    assume "\<exists>b. d = [CHR '' '', b] \<and> b \<in> set ''123456789''"
    then obtain b where "d = [CHR '' '', b]" "b \<in> set ''123456789''" by blast
    then show ?thesis using blank_day_value [of b] by simp
  qed
  from assms show "digits d \<and> (length d = 1 \<or> length d = 2)
            \<or> (\<exists>b. d = [CHR '' '', b] \<and> b \<in> set ''123456789'')"
    unfolding re_d_def by blast
qed

lemma strptime_accepted_1:
  assumes ok: "strptime s ''%Y-%m-%dT%H:%M:%S.%fZ'' = Inr t"
  shows "accepted_date s t"
proof -
  from strptime_match [OF ok] obtain y0 mo0 d0 h0 mi0 se0 f0 where
    vs: "match_format ''%Y-%m-%dT%H:%M:%S.%fZ'' s = Some [y0, mo0, d0, h0, mi0, se0, f0]"
    and t0: "t = \<lparr>dt_year = y0, dt_month = mo0, dt_day = d0, dt_hour = h0, dt_minute = mi0,
                   dt_second = se0\<rparr>"
    and cal0: "1 \<le> y0" "d0 \<le> days_in_month y0 mo0" "se0 \<le> 59"
    by blast
  from vs [unfolded match_format_fields] obtain Y mo d h mi se f sepT sepZ where
    s: "s = Y @ ''-'' @ mo @ ''-'' @ d @ sepT # h @ '':'' @ mi @ '':'' @ se @ ''.'' @ f @ [sepZ]"
    and Y: "digits Y" "re_Y Y" and mo: "digits mo" "re_m mo"
    and d: "digits d \<and> re_d d \<or> (\<exists>b. d = [CHR '' '', b] \<and> b \<in> set ''123456789'')"
    and h: "digits h" "re_H h" and mi: "digits mi" "re_M mi" and se: "digits se" "re_S se"
    and f: "digits f" "re_f f"
    and sepT: "sepT = CHR ''T'' \<or> sepT = CHR ''t''" and sepZ: "sepZ = CHR ''Z'' \<or> sepZ = CHR ''z''"
    and vals: "[y0, mo0, d0, h0, mi0, se0, f0] =
        [num Y, num mo, num (filter is_digit d), num h, num mi, num se, num f]"
    by (elim exE conjE) (rule that)
  from vals have eqs: "y0 = num Y" "mo0 = num mo" "d0 = num (filter is_digit d)" "h0 = num h"
    "mi0 = num mi" "se0 = num se"
    by simp_all
  have t: "t = \<lparr>dt_year = num Y, dt_month = num mo, dt_day = num (filter is_digit d),
                 dt_hour = num h, dt_minute = num mi, dt_second = num se\<rparr>"
    unfolding t0 eqs ..
  have valid: "valid_datetime t"
    unfolding valid_datetime_def t
    using cal0 [unfolded eqs] day_text_value(1) [OF d] mo(2) h(2) mi(2)
    by (simp add: re_m_def re_H_def re_M_def)
  have lens: "length Y = 4" "length mo = 1 \<or> length mo = 2" "length h = 1 \<or> length h = 2"
    "length mi = 1 \<or> length mi = 2" "length se = 1 \<or> length se = 2" "1 \<le> length f" "length f \<le> 6"
    using Y(2) mo(2) h(2) mi(2) se(2) f(2)
    by (simp_all add: re_Y_def re_m_def re_H_def re_M_def re_S_def re_f_def)
  show ?thesis
    unfolding accepted_date_def
    apply (rule exI [of _ Y])
    apply (rule exI [of _ mo])
    apply (rule exI [of _ d])
    apply (rule exI [of _ h])
    apply (rule exI [of _ mi])
    apply (rule exI [of _ se])
    apply (rule exI [of _ f])
    apply (rule exI [of _ sepT])
    apply (rule exI [of _ sepZ])
    apply (intro conjI)
    apply (rule s Y(1) lens mo(1) day_text_value(2) [OF d] h(1) mi(1) se(1) f(1) sepT sepZ t valid)+
    done
qed

lemma strptime_accepted_2:
  assumes "accepted_date s t"
  shows "strptime s ''%Y-%m-%dT%H:%M:%S.%fZ'' = Inr t"
proof -
  from assms obtain Y mo d h mi se f sepT sepZ where
    s: "s = Y @ ''-'' @ mo @ ''-'' @ d @ sepT # h @ '':'' @ mi @ '':'' @ se @ ''.'' @ f @ [sepZ]"
    and Y: "digits Y" "length Y = 4" and mo: "digits mo" "length mo = 1 \<or> length mo = 2"
    and d: "digits d \<and> (length d = 1 \<or> length d = 2)
            \<or> (\<exists>b. d = [CHR '' '', b] \<and> b \<in> set ''123456789'')"
    and h: "digits h" "length h = 1 \<or> length h = 2"
    and mi: "digits mi" "length mi = 1 \<or> length mi = 2"
    and se: "digits se" "length se = 1 \<or> length se = 2"
    and f: "digits f" "1 \<le> length f" "length f \<le> 6"
    and seps: "sepT = CHR ''T'' \<or> sepT = CHR ''t''" "sepZ = CHR ''Z'' \<or> sepZ = CHR ''z''"
    and t: "t = \<lparr>dt_year = num Y, dt_month = num mo, dt_day = num (filter is_digit d),
                 dt_hour = num h, dt_minute = num mi, dt_second = num se\<rparr>"
    and valid: "valid_datetime t"
    unfolding accepted_date_def by blast
  from valid have v: "1 \<le> num Y" "1 \<le> num mo" "num mo \<le> 12" "1 \<le> num (filter is_digit d)"
    "num (filter is_digit d) \<le> days_in_month (num Y) (num mo)" "num h \<le> 23" "num mi \<le> 59"
    "num se \<le> 59"
    unfolding valid_datetime_def t by simp_all
  have filt: "digits d \<Longrightarrow> filter is_digit d = d"
    by (simp add: digits_def list_all_iff)
  from v(5) days_in_month_le [of "num Y" "num mo"] have "num (filter is_digit d) \<le> 31" by simp
  with d v(4) filt have d': "digits d \<and> re_d d \<or> (\<exists>b. d = [CHR '' '', b] \<and> b \<in> set ''123456789'')"
    by (auto simp: re_d_def)
  have "match_format ''%Y-%m-%dT%H:%M:%S.%fZ'' s =
      Some [num Y, num mo, num (filter is_digit d), num h, num mi, num se, num f]"
    unfolding match_format_fields
    apply (rule exI [of _ Y])
    apply (rule exI [of _ mo])
    apply (rule exI [of _ d])
    apply (rule exI [of _ h])
    apply (rule exI [of _ mi])
    apply (rule exI [of _ se])
    apply (rule exI [of _ f])
    apply (rule exI [of _ sepT])
    apply (rule exI [of _ sepZ])
    using s Y mo d' h mi se f seps v
    apply (simp add: re_Y_def re_m_def re_H_def re_M_def re_S_def re_f_def)
    done
  then show "strptime s ''%Y-%m-%dT%H:%M:%S.%fZ'' = Inr t"
    unfolding strptime_def t using v by simp
qed

lemma strptime_accepted:
  "(strptime s ''%Y-%m-%dT%H:%M:%S.%fZ'' = Inr t) = accepted_date s t"
  using strptime_accepted_1 strptime_accepted_2 by blast

lemma dec_small: "n < 10 \<Longrightarrow> dec_digits n = [digit_char n]"
  by (subst dec_digits.simps) simp

lemma dec_big: "10 \<le> n \<Longrightarrow> dec_digits n = dec_digits (n div 10) @ [digit_char (n mod 10)]"
  by (subst dec_digits.simps) simp

lemma zero_pad_step:
  assumes "v < 10" and "0 < w"
  shows "zero_pad (Suc w) (10 * a + v) = zero_pad w a @ [digit_char v]"
proof (cases "a = 0")
  case True
  have "replicate (w - Suc 0) CHR ''0'' @ [CHR ''0''] = replicate w CHR ''0''"
    using assms(2) by (cases w) (simp_all add: replicate_append_same)
  then show ?thesis
    using True assms(1) by (simp add: zero_pad_def dec_small digit_char_def del: dec_digits.simps)
next
  case False
  then have big: "10 \<le> 10 * a + v" by simp
  have "(10 * a + v) div 10 = a" "(10 * a + v) mod 10 = v"
    using assms(1) by simp_all
  then have "dec_digits (10 * a + v) = dec_digits a @ [digit_char v]"
    using dec_big [OF big] by simp
  then show ?thesis
    by (simp add: zero_pad_def del: dec_digits.simps)
qed

lemma digit_val_digit:
  assumes "is_digit c"
  shows "digit_val c < 10" and "digit_char (digit_val c) = c"
  using assms by (auto simp: is_digit_def digit_val_def digit_char_def)

lemma num_snoc: "num (ds @ [c]) = 10 * num ds + digit_val c"
  by (simp add: num_def)

lemma zero_pad_num:
  "digits ds \<Longrightarrow> ds \<noteq> [] \<Longrightarrow> zero_pad (length ds) (num ds) = ds"
proof (induction ds rule: rev_induct)
  case Nil
  then show ?case by simp
next
  case (snoc c ds)
  from snoc.prems(1) have c: "is_digit c" and ds: "digits ds"
    by (simp_all add: digits_def)
  show ?case
  proof (cases "ds = []")
    case True
    then show ?thesis
      using digit_val_digit [OF c]
      by (simp add: num_def zero_pad_def dec_small del: dec_digits.simps)
  next
    case False
    then have "0 < length ds" by simp
    from zero_pad_step [OF digit_val_digit(1) [OF c] this, of "num ds"] snoc.IH [OF ds False]
    show ?thesis
      using digit_val_digit(2) [OF c] by (simp add: num_snoc)
  qed
qed

lemma pattern_chars:
  assumes "matches_source_pattern s"
  shows "\<exists>y1 y2 y3 y4 m1 m2 d1 d2 h1 h2 n1 n2 s1 s2 f1 f2 f3 f4 f5 f6.
     s = [y1, y2, y3, y4, CHR ''-'', m1, m2, CHR ''-'', d1, d2, CHR ''T'', h1, h2, CHR '':'',
          n1, n2, CHR '':'', s1, s2, CHR ''.'', f1, f2, f3, f4, f5, f6, CHR ''Z'']
     \<and> digits [y1, y2, y3, y4] \<and> digits [m1, m2] \<and> digits [d1, d2] \<and> digits [h1, h2]
     \<and> digits [n1, n2] \<and> digits [s1, s2] \<and> digits [f1, f2, f3, f4, f5, f6]"
  using assms
  unfolding matches_source_pattern_def source_pattern_def digits_def
  by (clarsimp simp: list_all2_Cons1)

lemma zero_pad_2: "digits [a, b] \<Longrightarrow> zero_pad 2 (num [a, b]) = [a, b]"
  using zero_pad_num [of "[a, b]"] by (simp add: numeral_2_eq_2)

lemma zero_pad_4: "digits [a, b, c, d] \<Longrightarrow> zero_pad 4 (num [a, b, c, d]) = [a, b, c, d]"
  using zero_pad_num [of "[a, b, c, d]"] by (simp add: eval_nat_numeral)

lemma dec_digits_length:
  assumes "1000 \<le> n"
  shows "4 \<le> length (dec_digits n)"
proof -
  have nonempty: "1 \<le> length (dec_digits m)" for m
    by (subst dec_digits.simps) simp
  from assms have "10 \<le> n" "10 \<le> n div 10" "10 \<le> n div 10 div 10"
    by simp_all
  then have "dec_digits n =
      dec_digits (n div 10 div 10 div 10)
      @ [digit_char (n div 10 div 10 mod 10), digit_char (n div 10 mod 10), digit_char (n mod 10)]"
    by (simp add: dec_big del: dec_digits.simps)
  with nonempty [of "n div 10 div 10 div 10"] show ?thesis
    by (simp del: dec_digits.simps)
qed

lemma dec_digits_4:
  assumes "digits [a, b, c, d]" and "1000 \<le> num [a, b, c, d]"
  shows "dec_digits (num [a, b, c, d]) = [a, b, c, d]"
proof -
  from assms(2) have "4 \<le> length (dec_digits (num [a, b, c, d]))"
    by (rule dec_digits_length)
  with zero_pad_4 [OF assms(1)] show ?thesis
    by (simp add: zero_pad_def del: dec_digits.simps)
qed

lemma pattern_accepted:
  assumes "matches_source_pattern s" and "valid_datetime (pattern_datetime s)"
  shows "accepted_date s (pattern_datetime s)"
    and "strftime (pattern_datetime s) =
           dec_digits (dt_year (pattern_datetime s)) @ take 15 (drop 4 s) @ ''Z''"
    and "1000 \<le> dt_year (pattern_datetime s) \<Longrightarrow> strftime (pattern_datetime s) = take 19 s @ ''Z''"
proof -
  from pattern_chars [OF assms(1)]
  obtain y1 y2 y3 y4 m1 m2 d1 d2 h1 h2 n1 n2 s1 s2 f1 f2 f3 f4 f5 f6 where
    s: "s = [y1, y2, y3, y4, CHR ''-'', m1, m2, CHR ''-'', d1, d2, CHR ''T'', h1, h2, CHR '':'',
          n1, n2, CHR '':'', s1, s2, CHR ''.'', f1, f2, f3, f4, f5, f6, CHR ''Z'']"
    and dg: "digits [y1, y2, y3, y4]" "digits [m1, m2]" "digits [d1, d2]" "digits [h1, h2]"
      "digits [n1, n2]" "digits [s1, s2]" "digits [f1, f2, f3, f4, f5, f6]"
    by blast
  have t: "pattern_datetime s =
      \<lparr>dt_year = num [y1, y2, y3, y4], dt_month = num [m1, m2],
       dt_day = num (filter is_digit [d1, d2]), dt_hour = num [h1, h2],
       dt_minute = num [n1, n2], dt_second = num [s1, s2]\<rparr>"
    using dg(3) by (simp add: pattern_datetime_def s digits_def)
  show "accepted_date s (pattern_datetime s)"
    unfolding accepted_date_def
    apply (rule exI [of _ "[y1, y2, y3, y4]"])
    apply (rule exI [of _ "[m1, m2]"])
    apply (rule exI [of _ "[d1, d2]"])
    apply (rule exI [of _ "[h1, h2]"])
    apply (rule exI [of _ "[n1, n2]"])
    apply (rule exI [of _ "[s1, s2]"])
    apply (rule exI [of _ "[f1, f2, f3, f4, f5, f6]"])
    apply (rule exI [of _ "CHR ''T''"])
    apply (rule exI [of _ "CHR ''Z''"])
    using dg assms(2) t
    apply (simp add: s)
    done
  have f: "strftime (pattern_datetime s) =
      dec_digits (num [y1, y2, y3, y4]) @ ''-'' @ [m1, m2] @ ''-'' @ [d1, d2] @ ''T'' @ [h1, h2]
      @ '':'' @ [n1, n2] @ '':'' @ [s1, s2] @ ''Z''"
    using dg(3) unfolding strftime_def t
    by (simp add: zero_pad_2 [OF dg(2)] zero_pad_2 [OF dg(3)] zero_pad_2 [OF dg(4)]
        zero_pad_2 [OF dg(5)] zero_pad_2 [OF dg(6)] digits_def del: dec_digits.simps)
  show "strftime (pattern_datetime s) =
          dec_digits (dt_year (pattern_datetime s)) @ take 15 (drop 4 s) @ ''Z''"
    unfolding f unfolding t by (simp add: s del: dec_digits.simps)
  show "strftime (pattern_datetime s) = take 19 s @ ''Z''"
    if "1000 \<le> dt_year (pattern_datetime s)"
  proof -
    from that have "1000 \<le> num [y1, y2, y3, y4]" unfolding t by simp
    from dec_digits_4 [OF dg(1) this] show ?thesis
      unfolding f by (simp add: s del: dec_digits.simps)
  qed
qed

lemma transform_record_needs_date:
  "normalize_date r = Inl e \<Longrightarrow> \<exists>e'. transform_record hm cm fb m r = Inl e'"
  by (auto simp: transform_record_def split: sum.splits)

lemma transform_loop_aborts:
  "r \<in> set rs \<Longrightarrow> normalize_date r = Inl e \<Longrightarrow> \<exists>e'. transform_loop hm cm fb m rs = Inl e'"
proof (induction rs)
  case Nil
  then show ?case by simp
next
  case (Cons a rs)
  show ?case
  proof (cases "transform_record hm cm fb m a")
    case (Inl e')
    then show ?thesis by simp
  next
    case (Inr t)
    with transform_record_needs_date [OF Cons.prems(2), of hm cm fb m] Cons.prems(1)
    have "r \<in> set rs" by auto
    from Cons.IH [OF this Cons.prems(2)] Inr show ?thesis by auto
  qed
qed

lemma transform_records_aborts:
  "r \<in> set rs \<Longrightarrow> normalize_date r = Inl e \<Longrightarrow> \<exists>e'. transform_records rs bh bc m = Inl e'"
  unfolding transform_records_def
  by (auto split: sum.splits dest: transform_loop_aborts)

lemma normalize_date_Inr:
  "(normalize_date r = Inr out) =
     (\<exists>s t. map_of r ''actionDate'' = Some (JStr s) \<and> accepted_date s t \<and> out = strftime t)"
proof (cases "map_of r ''actionDate''")
  case None
  then show ?thesis by simp
next
  case (Some v)
  show ?thesis
  proof (cases "\<exists>s. v = JStr s")
    case True
    then obtain s where v: "v = JStr s" by blast
    show ?thesis
    proof (cases "strptime s ''%Y-%m-%dT%H:%M:%S.%fZ''")
      case (Inl e)
      then have "\<not> accepted_date s t" for t
        unfolding strptime_accepted [symmetric] by simp
      with Inl Some v show ?thesis by simp
    next
      case (Inr t)
      then have "accepted_date s t'  = (t' = t)" for t'
        unfolding strptime_accepted [symmetric] by auto
      with Inr Some v show ?thesis by auto
    qed
  next
    case False
    with Some show ?thesis by (cases v) auto
  qed
qed

text \<open>
  Claim C6, as stated, against the code. The claim takes the source date to be of the
  pattern \<^verbatim>\<open>YYYY-MM-DDTHH:MM:SS.ffffffZ\<close> and says that a record whose date is absent or
  does not match is an error. The date \<^verbatim>\<open>2024-05-11T12:34:56.789Z\<close>, with three digits of
  fraction (the form of the example in the source's own comment), does not match that
  pattern, and is normalized without an error to \<^verbatim>\<open>2024-05-11T12:34:56Z\<close>.
\<close>

theorem short_fraction_counterexample:
  "map_of ex_short_fraction ''actionDate'' = Some (JStr ''2024-05-11T12:34:56.789Z'')
   \<and> \<not> matches_source_pattern ''2024-05-11T12:34:56.789Z''
   \<and> normalize_date ex_short_fraction = Inr ''2024-05-11T12:34:56Z''"
  by (simp add: ex_short_fraction_def matches_source_pattern_def source_pattern_def date_defs)

text \<open>
  Claim C6, amended. The normalization of a record's \<^verbatim>\<open>actionDate\<close> succeeds exactly on the
  texts the format \<^verbatim>\<open>%Y-%m-%dT%H:%M:%S.%fZ\<close> accepts (a fraction of one to six digits, fields
  of one or two digits, values that make a date and a time), and gives the date and time
  to the second followed by \<^verbatim>\<open>Z\<close>. A text of the pattern \<^verbatim>\<open>YYYY-MM-DDTHH:MM:SS.ffffffZ\<close> with
  a valid date and time is normalized to the year in decimal, without leading zeros,
  followed by the text from the first \<^verbatim>\<open>-\<close> to the second and \<^verbatim>\<open>Z\<close>; when the year is 1000
  or later that is the text's first 19 characters and \<^verbatim>\<open>Z\<close>. An absent date is a \<^verbatim>\<open>KeyError\<close>, a date that is not a text a \<^verbatim>\<open>TypeError\<close>, a text
  that the format does not accept a \<^verbatim>\<open>ValueError\<close>; nothing is skipped or defaulted: a batch
  holding a record whose date fails is not transformed at all.
\<close>

theorem date_normalization_accepts_format:
  "(normalize_date r = Inr out) =
     (\<exists>s t. map_of r ''actionDate'' = Some (JStr s) \<and> accepted_date s t \<and> out = strftime t)
   \<and> (\<forall>s. map_of r ''actionDate'' = Some (JStr s) \<and> matches_source_pattern s
          \<and> valid_datetime (pattern_datetime s)
          \<longrightarrow> normalize_date r =
                Inr (dec_digits (dt_year (pattern_datetime s)) @ take 15 (drop 4 s) @ ''Z''))
   \<and> (\<forall>s. map_of r ''actionDate'' = Some (JStr s) \<and> matches_source_pattern s
          \<and> valid_datetime (pattern_datetime s) \<and> 1000 \<le> dt_year (pattern_datetime s)
          \<longrightarrow> normalize_date r = Inr (take 19 s @ ''Z''))
   \<and> (map_of r ''actionDate'' = None \<longrightarrow> normalize_date r = Inl KeyError)
   \<and> (\<forall>v. map_of r ''actionDate'' = Some v \<and> (\<forall>s. v \<noteq> JStr s)
          \<longrightarrow> normalize_date r = Inl TypeError)
   \<and> (\<forall>s. map_of r ''actionDate'' = Some (JStr s) \<and> (\<forall>t. \<not> accepted_date s t)
          \<longrightarrow> normalize_date r = Inl ValueError)
   \<and> (\<forall>e. normalize_date r = Inl e \<and> r \<in> set records
          \<longrightarrow> (\<exists>e'. transform_records records beep_hives beep_checklists m = Inl e'))"
proof -
  note a = normalize_date_Inr [of r out]
  have b: "normalize_date r =
             Inr (dec_digits (dt_year (pattern_datetime s)) @ take 15 (drop 4 s) @ ''Z'')"
    if "map_of r ''actionDate'' = Some (JStr s)" "matches_source_pattern s"
      "valid_datetime (pattern_datetime s)" for s
    using that(1) pattern_accepted(1,2) [OF that(2,3)]
    unfolding normalize_date_Inr by metis
  have b': "normalize_date r = Inr (take 19 s @ ''Z'')"
    if "map_of r ''actionDate'' = Some (JStr s)" "matches_source_pattern s"
      "valid_datetime (pattern_datetime s)" "1000 \<le> dt_year (pattern_datetime s)" for s
    using that(1) pattern_accepted(1) [OF that(2,3)] pattern_accepted(3) [OF that(2,3,4)]
    unfolding normalize_date_Inr by metis
  have c: "normalize_date r = Inl KeyError" if "map_of r ''actionDate'' = None"
    using that by simp
  have d: "normalize_date r = Inl TypeError"
    if "map_of r ''actionDate'' = Some v" "\<forall>s. v \<noteq> JStr s" for v
    using that by (cases v) auto
  have e: "normalize_date r = Inl ValueError"
    if s: "map_of r ''actionDate'' = Some (JStr s)" and no: "\<forall>t. \<not> accepted_date s t" for s
  proof (cases "strptime s ''%Y-%m-%dT%H:%M:%S.%fZ''")
    case (Inl err)
    then have "err = ValueError"
      by (auto simp: strptime_def split: option.splits list.splits if_splits)
    with Inl s show ?thesis by simp
  next
    case (Inr t)
    with no show ?thesis unfolding strptime_accepted [symmetric] by simp
  qed
  have f: "\<exists>e'. transform_records records beep_hives beep_checklists m = Inl e'"
    if "normalize_date r = Inl e" "r \<in> set records" for e
    using that(2,1) by (rule transform_records_aborts)
  from a b b' c d e f show ?thesis by blast
qed

lemma ex_pattern:
  "matches_source_pattern ''2024-05-11T12:34:56.789012Z''"
  "valid_datetime (pattern_datetime ''2024-05-11T12:34:56.789012Z'')"
  "1000 \<le> dt_year (pattern_datetime ''2024-05-11T12:34:56.789012Z'')"
  by (simp_all add: matches_source_pattern_def source_pattern_def valid_datetime_def
      pattern_datetime_def is_digit_def num_def digit_val_def days_in_month_def is_leap_def)

lemma ex_early_pattern:
  "matches_source_pattern ''0999-01-02T03:04:05.000000Z''"
  "valid_datetime (pattern_datetime ''0999-01-02T03:04:05.000000Z'')"
  "dec_digits (dt_year (pattern_datetime ''0999-01-02T03:04:05.000000Z''))
     @ take 15 (drop 4 ''0999-01-02T03:04:05.000000Z'') @ ''Z'' = ''999-01-02T03:04:05Z''"
  by (simp_all add: matches_source_pattern_def source_pattern_def valid_datetime_def
      pattern_datetime_def is_digit_def num_def digit_val_def days_in_month_def is_leap_def
      digit_char_def)

text \<open>
  The example record's date has the specification's pattern and a year after 1000, and is
  normalized to its first 19 characters and \<^verbatim>\<open>Z\<close>; a date of the year 999 in the same
  pattern loses the leading zero of its year; a record without a date is a \<^verbatim>\<open>KeyError\<close>
  and aborts the batch it is in.
\<close>

theorem date_normalization_accepts_format_witness:
  "map_of ex_record ''actionDate'' = Some (JStr ''2024-05-11T12:34:56.789012Z'')
   \<and> matches_source_pattern ''2024-05-11T12:34:56.789012Z''
   \<and> valid_datetime (pattern_datetime ''2024-05-11T12:34:56.789012Z'')
   \<and> 1000 \<le> dt_year (pattern_datetime ''2024-05-11T12:34:56.789012Z'')
   \<and> normalize_date ex_record = Inr ''2024-05-11T12:34:56Z''
   \<and> map_of ex_early ''actionDate'' = Some (JStr ''0999-01-02T03:04:05.000000Z'')
   \<and> matches_source_pattern ''0999-01-02T03:04:05.000000Z''
   \<and> valid_datetime (pattern_datetime ''0999-01-02T03:04:05.000000Z'')
   \<and> normalize_date ex_early = Inr ''999-01-02T03:04:05Z''
   \<and> map_of ex_undated ''actionDate'' = None
   \<and> normalize_date ex_undated = Inl KeyError
   \<and> transform_records [ex_record, ex_undated] ex_hives ex_checklists ex_loaded = Inl KeyError"
proof -
  have r: "map_of ex_record ''actionDate'' = Some (JStr ''2024-05-11T12:34:56.789012Z'')"
    by (simp add: ex_record_def)
  have u: "map_of ex_undated ''actionDate'' = None"
    by (simp add: ex_undated_def)
  from date_normalization_accepts_format [of ex_record undefined undefined undefined undefined undefined]
    r ex_pattern
  have n: "normalize_date ex_record = Inr (take 19 ''2024-05-11T12:34:56.789012Z'' @ ''Z'')"
    by blast
  have y: "map_of ex_early ''actionDate'' = Some (JStr ''0999-01-02T03:04:05.000000Z'')"
    by (simp add: ex_early_def)
  from date_normalization_accepts_format [of ex_early undefined undefined undefined undefined undefined]
    y ex_early_pattern(1,2)
  have "normalize_date ex_early =
      Inr (dec_digits (dt_year (pattern_datetime ''0999-01-02T03:04:05.000000Z''))
           @ take 15 (drop 4 ''0999-01-02T03:04:05.000000Z'') @ ''Z'')"
    by blast
  then have o: "normalize_date ex_early = Inr ''999-01-02T03:04:05Z''"
    unfolding ex_early_pattern(3) .
  from date_normalization_accepts_format [of ex_undated undefined undefined undefined undefined undefined] u
  have k: "normalize_date ex_undated = Inl KeyError"
    by blast
  have t: "transform_records [ex_record, ex_undated] ex_hives ex_checklists ex_loaded = Inl KeyError"
    by (simp add: ex_record_def ex_undated_def ex_hives_def ex_checklists_def ex_loaded_def
        transform_records_def transform_record_def name_id_map_def build_items_def hive_ids_of_def
        resolve_checklist_def reminder_of_def table_get_def table_has_def get_or_def py_or_def
        dict_get_def dict_get_default_def date_defs str_int_def)
  from r u n k t y o ex_pattern ex_early_pattern(1,2) show ?thesis by simp
qed

section \<open>Properties of a run: configuration errors\<close>

























end
